(* ===== verification/Frpc_Prelude.thy ===== *)
theory Frpc_Prelude
  imports Main "HOL-Library.Word" "HOL-Library.AList"
begin

text \<open>
  Shared vocabulary of the development: Go's integer and byte types, slices and their
  bounds checks, maps, errors, and the generic lemmas on lists and words that the component
  theories use.

  A Go \<open>string\<close> is a sequence of bytes and an Isabelle \<open>char\<close> is one byte, so a Go string is
  a \<^typ>\<open>string\<close>.  A Go \<open>map[string]string\<close> is an association list: the list order stands for
  the order in which one \<open>range\<close> loop visits the entries, which the language leaves open;
  theorems hold for every list, hence for every iteration order.  \<open>int\<close> is the 64-bit target's
  type, written as \<^typ>\<open>int\<close> or \<^typ>\<open>nat\<close> where the surrounding bounds exclude wrap-around and as a
  word where they do not.
\<close>

unbundle bit_operations_syntax

named_theorems frpc_defs \<open>definitions unfolded by routine component proofs\<close>
named_theorems slice_simps \<open>reading back what was written to a buffer\<close>

section \<open>Types\<close>

type_synonym byte = "8 word"
type_synonym u32 = "32 word"
type_synonym u64 = "64 word"
type_synonym bytes = "byte list"
type_synonym strmap = "(string \<times> string) list"

text \<open>
  Go errors.  \<open>Sentinel\<close> is a package-level error variable, identified by its text; \<open>NewError\<close>
  is an error built at run time by \<open>errors.New\<close> or \<open>fmt.Errorf\<close>; the two \<open>io\<close> errors the code
  compares against have constructors of their own; \<open>ServiceErr\<close> is the client's
  \<open>ServiceError\<close> string type and \<open>MultiErr\<close> the \<open>error.MultiError\<close> struct.
\<close>

datatype go_error =
    EOF
  | UnexpectedEOF
  | Sentinel string
  | NewError string
  | ServiceErr string
  | MultiErr "go_error list"

text \<open>How a call ends: with a nil error, with an error value, or in a run-time panic.\<close>

datatype status = Done | Fail go_error | Panic

section \<open>Slices\<close>

text \<open>
  \<open>data[a:b]\<close> for a slice whose backing store, seen from the slice's first element, is
  \<open>data\<close>: Go checks \<open>a \<le> b\<close> and \<open>b \<le> cap\<close>, and panics otherwise.
\<close>

definition subslice :: "'a list \<Rightarrow> nat \<Rightarrow> nat \<Rightarrow> 'a list option" where
  "subslice data a b = (if a \<le> b \<and> b \<le> length data then Some (take (b - a) (drop a data)) else None)"

text \<open>\<open>copy(buf[a:], src)\<close> copies as many bytes as fit.\<close>

definition copy_at :: "'a list \<Rightarrow> nat \<Rightarrow> 'a list \<Rightarrow> 'a list" where
  "copy_at buf a src =
     take a buf @ take (length buf - a) src @ drop (a + length src) buf"

lemma slice_SomeD:
  "subslice data a b = Some x \<Longrightarrow> a \<le> b \<and> b \<le> length data \<and> x = take (b - a) (drop a data)"
  by (auto simp: subslice_def split: if_splits)

lemma slice_length: "subslice data a b = Some x \<Longrightarrow> length x = b - a"
  by (auto dest: slice_SomeD)

lemma slice_Some_iff: "(\<exists>x. subslice data a b = Some x) \<longleftrightarrow> a \<le> b \<and> b \<le> length data"
  by (simp add: subslice_def)

lemma slice_None_iff: "subslice data a b = None \<longleftrightarrow> b < a \<or> length data < b"
  by (auto simp: subslice_def)

lemma slice_middle [slice_simps]:
  "length p = a \<Longrightarrow> length x = b - a \<Longrightarrow> a \<le> b \<Longrightarrow> subslice (p @ x @ s) a b = Some x"
  by (auto simp: subslice_def)

lemma length_copy_at [simp]: "a \<le> length buf \<Longrightarrow> length (copy_at buf a src) = length buf"
  by (auto simp: copy_at_def min_def)

lemma copy_at_split [slice_simps]:
  "length p = a \<Longrightarrow> length z = length src \<Longrightarrow> copy_at (p @ z @ s) a src = p @ src @ s"
  by (simp add: copy_at_def)

text \<open>A buffer from \<open>make([]byte, n)\<close>, filled from the front.\<close>

definition filled :: "bytes \<Rightarrow> nat \<Rightarrow> bytes" where
  "filled p n = p @ replicate n 0"

lemma filled_empty: "replicate n 0 = filled [] n"
  by (simp add: filled_def)

lemma filled_full [slice_simps]: "filled p 0 = p"
  by (simp add: filled_def)

lemma length_filled [slice_simps]: "length (filled p n) = length p + n"
  by (simp add: filled_def)

lemma copy_at_filled [slice_simps]:
  "length p = a \<Longrightarrow> length src \<le> n \<Longrightarrow>
   copy_at (filled p n) a src = filled (p @ src) (n - length src)"
  by (simp add: copy_at_def filled_def)

section \<open>Strings and maps\<close>

lemma map_of_AList_update [simp]: "map_of (AList.update k v m) = (map_of m)(k \<mapsto> v)"
  by (rule ext) (simp add: update_conv')

lemma distinct_AList_update:
  "distinct (map fst m) \<Longrightarrow> distinct (map fst (AList.update k v m))"
  by (rule distinct_update)

lemma AList_update_fresh: "k \<notin> fst ` set m \<Longrightarrow> AList.update k v m = m @ [(k, v)]"
  by (induction m) auto

lemma map_of_AList_delete [simp]: "map_of (AList.delete k m) = (map_of m)(k := None)"
  by (rule ext) (simp add: delete_conv')

text \<open>Two association lists that are the same Go map, visited in different orders.\<close>

definition same_map :: "('k \<times> 'v) list \<Rightarrow> ('k \<times> 'v) list \<Rightarrow> bool" where
  "same_map m m' \<longleftrightarrow> distinct (map fst m) \<and> distinct (map fst m') \<and> set m = set m'"

lemma same_map_lookup: "same_map m m' \<Longrightarrow> map_of m = map_of m'"
  unfolding same_map_def by (metis map_of_inject_set)

section \<open>Words\<close>

lemma unat_byte_less [simp]: "unat (x :: byte) < 256"
  using unsigned_less [of x] by simp

lemma unat_u32_less [simp]: "unat (x :: u32) < 4294967296"
  using unsigned_less [of x] by simp

lemma unat_of_nat_u32: "x < 2 ^ 32 \<Longrightarrow> unat (of_nat x :: u32) = x"
  by (simp add: unat_of_nat take_bit_nat_eq_self)

lemma uint_of_nat_u32: "x < 2 ^ 32 \<Longrightarrow> uint (of_nat x :: u32) = int x"
  using unat_of_nat_u32 [of x] by (metis int_nat_eq uint_nonnegative unat_eq_nat_uint)

lemma word_add_no_wrap:
  fixes a b :: "'w::len word"
  assumes "unat a \<le> unat (a + b)"
  shows "unat (a + b) = unat a + unat b"
proof -
  have "a \<le> a + b" using assms by (simp add: word_le_nat_alt)
  then show ?thesis by (simp add: unat_plus_simple)
qed

text \<open>One byte of a word, shifted out and back into place, is that byte's bits.\<close>

lemma bit_shifted_byte:
  fixes v :: "'w::len word"
  shows "bit (push_bit k (ucast (ucast (drop_bit k v) :: byte)) :: 'w word) n
    \<longleftrightarrow> k \<le> n \<and> n < k + 8 \<and> bit v n"
  by (auto simp: bit_simps dest: bit_imp_le_length)

text \<open>Bytes compared bit by bit, for the flag fields packed into one byte.\<close>

lemma byte_eq_iff:
  fixes x y :: byte
  shows "x = y \<longleftrightarrow>
    (bit x 0 \<longleftrightarrow> bit y 0) \<and> (bit x 1 \<longleftrightarrow> bit y 1) \<and> (bit x 2 \<longleftrightarrow> bit y 2) \<and>
    (bit x 3 \<longleftrightarrow> bit y 3) \<and> (bit x 4 \<longleftrightarrow> bit y 4) \<and> (bit x 5 \<longleftrightarrow> bit y 5) \<and>
    (bit x 6 \<longleftrightarrow> bit y 6) \<and> (bit x 7 \<longleftrightarrow> bit y 7)"
    (is "_ \<longleftrightarrow> ?bits")
proof
  assume ?bits
  show "x = y"
  proof (rule bit_word_eqI)
    fix n :: nat
    assume "n < LENGTH(8)"
    then have "n \<in> {0, 1, 2, 3, 4, 5, 6, 7}" by auto
    then show "bit x n \<longleftrightarrow> bit y n" using \<open>?bits\<close> by auto
  qed
qed simp

lemmas byte_bits = byte_eq_iff bit_simps

section \<open>Fixed-width fields\<close>

text \<open>
  The contract between a wire format and the integers it carries: writing a value takes a
  fixed number of bytes, and reading those bytes gives the value back.
\<close>

locale fixed_field =
  fixes put :: "'v \<Rightarrow> bytes"
    and get :: "bytes \<Rightarrow> 'v"
    and width :: nat
  assumes get_put: "get (put v) = v"
    and length_put: "length (put v) = width"
begin

lemma slice_put: "length p = a \<Longrightarrow> subslice (p @ put v @ s) a (a + width) = Some (put v)"
  by (rule slice_middle) (simp_all add: length_put)

lemma put_inj: "put v = put w \<longleftrightarrow> v = w"
  by (metis get_put)

lemma copy_put:
  "length p = a \<Longrightarrow> length z = width \<Longrightarrow> copy_at (p @ z @ s) a (put v) = p @ put v @ s"
  by (rule copy_at_split) (simp_all add: length_put)

end

end
