(* ===== verification/Go_Strings.thy ===== *)
theory Go_Strings
  imports Frpc_Prelude
begin

text \<open>
  The string functions of Go's standard library that the program calls: splitting and trimming
  (\<open>strings\<close>), decimal integers (\<open>strconv\<close>) and URL query strings (\<open>net/url\<close>).
\<close>

section \<open>strings\<close>

text \<open>\<open>strings.SplitN(s, sep, 2)\<close> for a one-byte separator.\<close>

definition SplitN2 :: "string \<Rightarrow> char \<Rightarrow> string list" where
  "SplitN2 s sep =
     (if sep \<in> set s
      then [takeWhile (\<lambda>c. c \<noteq> sep) s, tl (dropWhile (\<lambda>c. c \<noteq> sep) s)] else [s])"

text \<open>\<open>strings.Split(s, sep)\<close> for a one-byte separator.\<close>

fun Split_on :: "char \<Rightarrow> string \<Rightarrow> string list" where
  "Split_on sep [] = [[]]"
| "Split_on sep (c # s) =
     (if c = sep then [] # Split_on sep s
      else (case Split_on sep s of x # xs \<Rightarrow> (c # x) # xs | [] \<Rightarrow> [[c]]))"

definition HasPrefix :: "string \<Rightarrow> string \<Rightarrow> bool" where
  "HasPrefix s p \<longleftrightarrow> take (length p) s = p"

definition HasSuffix :: "string \<Rightarrow> string \<Rightarrow> bool" where
  "HasSuffix s x \<longleftrightarrow> length x \<le> length s \<and> drop (length s - length x) s = x"

definition TrimPrefix :: "string \<Rightarrow> string \<Rightarrow> string" where
  "TrimPrefix s p = (if HasPrefix s p then drop (length p) s else s)"

lemma TrimPrefix_append [simp]: "TrimPrefix (p @ s) p = s"
  by (simp add: TrimPrefix_def HasPrefix_def)

lemma SplitN2_join:
  assumes "sep \<notin> set a"
  shows "SplitN2 (a @ sep # b) sep = [a, b]"
proof -
  have "takeWhile (\<lambda>c. c \<noteq> sep) (a @ sep # b) = a" "dropWhile (\<lambda>c. c \<noteq> sep) (a @ sep # b) = sep # b"
    using assms by (induction a) auto
  then show ?thesis by (simp add: SplitN2_def)
qed

lemma SplitN2_cases:
  "(sep \<notin> set s \<and> SplitN2 s sep = [s]) \<or>
   (\<exists>a b. s = a @ sep # b \<and> sep \<notin> set a \<and> SplitN2 s sep = [a, b])"
proof (cases "sep \<in> set s")
  case True
  then obtain a b where "s = a @ sep # b" "sep \<notin> set a"
    by (metis split_list_first)
  then show ?thesis using SplitN2_join by blast
qed (simp add: SplitN2_def)

lemma Split_on_nonempty: "Split_on sep s \<noteq> []"
  by (induction s) (auto split: list.splits)

lemma Split_on_no_sep: "sep \<notin> set s \<Longrightarrow> Split_on sep s = [s]"
  by (induction s) auto

section \<open>strconv\<close>

definition is_digit :: "char \<Rightarrow> bool" where
  "is_digit c \<longleftrightarrow> of_char c \<in> {48 .. 57 :: nat}"

definition digit :: "char \<Rightarrow> int" where
  "digit c = of_char c - 48"

definition decimal :: "string \<Rightarrow> int" where
  "decimal s = foldl (\<lambda>n c. 10 * n + digit c) 0 s"

text \<open>\<open>strconv.Atoi\<close>: an optional sign, decimal digits, and a value in the 64-bit range.\<close>

definition Atoi :: "string \<Rightarrow> go_error + int" where
  "Atoi s =
     (let (neg, ds) =
        (case s of
           [] \<Rightarrow> (False, [])
         | c # r \<Rightarrow> if c = CHR ''-'' then (True, r) else if c = CHR ''+'' then (False, r)
                    else (False, s))
      in if ds = [] \<or> \<not> list_all is_digit ds then Inl (NewError ''invalid syntax'')
         else let n = (if neg then - decimal ds else decimal ds)
              in if - (2 ^ 63) \<le> n \<and> n < 2 ^ 63 then Inr n else Inl (NewError ''value out of range''))"

section \<open>net/url\<close>

definition is_hex :: "char \<Rightarrow> bool" where
  "is_hex c \<longleftrightarrow> of_char c \<in> {48 .. 57 :: nat} \<union> {65 .. 70} \<union> {97 .. 102}"

definition unhex :: "char \<Rightarrow> nat" where
  "unhex c =
     (if of_char c \<le> (57 :: nat) then of_char c - 48
      else if of_char c \<le> (70 :: nat) then of_char c - 55
      else of_char c - 87)"

fun QueryUnescape :: "string \<Rightarrow> go_error + string" where
  "QueryUnescape [] = Inr []"
| "QueryUnescape (c # s) =
     (if c = CHR ''%'' then
        (case s of
           a # b # r \<Rightarrow>
             if is_hex a \<and> is_hex b
             then map_sum id (\<lambda>t. char_of (16 * unhex a + unhex b) # t) (QueryUnescape r)
             else Inl (NewError ''invalid URL escape'')
         | _ \<Rightarrow> Inl (NewError ''invalid URL escape''))
      else if c = CHR ''+'' then map_sum id (\<lambda>t. CHR '' '' # t) (QueryUnescape s)
      else map_sum id (\<lambda>t. c # t) (QueryUnescape s))"

type_synonym url_values = "(string \<times> string list) list"

definition values_add :: "url_values \<Rightarrow> string \<Rightarrow> string \<Rightarrow> url_values" where
  "values_add m k v = AList.update k ((case map_of m k of None \<Rightarrow> [] | Some vs \<Rightarrow> vs) @ [v]) m"

definition values_Get :: "url_values \<Rightarrow> string \<Rightarrow> string" where
  "values_Get m k = (case map_of m k of Some (v # _) \<Rightarrow> v | _ \<Rightarrow> '''')"

text \<open>\<open>url.ParseQuery\<close>: the values found, and the first error met.\<close>

function ParseQuery_loop :: "string \<Rightarrow> url_values \<Rightarrow> go_error option \<Rightarrow> url_values \<times> go_error option" where
  "ParseQuery_loop query m err =
     (if query = '''' then (m, err)
      else
        let key = takeWhile (\<lambda>c. c \<noteq> CHR ''&'' \<and> c \<noteq> CHR '';'') query;
            rest = drop (length key + 1) query
        in if key = '''' then ParseQuery_loop rest m err
           else
             let kv = SplitN2 key (CHR ''='');
                 value = (if length kv = 1 then '''' else kv ! 1)
             in (case QueryUnescape (kv ! 0) of
                   Inl e \<Rightarrow> ParseQuery_loop rest m (if err = None then Some e else err)
                 | Inr k \<Rightarrow>
                     (case QueryUnescape value of
                        Inl e \<Rightarrow> ParseQuery_loop rest m (if err = None then Some e else err)
                      | Inr v \<Rightarrow> ParseQuery_loop rest (values_add m k v) err)))"
  by pat_completeness auto
termination
  by (relation "measure (\<lambda>(query, m, err). length query)") (auto simp: Let_def)

declare ParseQuery_loop.simps [simp del]

definition ParseQuery :: "string \<Rightarrow> url_values \<times> go_error option" where
  "ParseQuery query = ParseQuery_loop query [] None"

section \<open>unicode/utf8\<close>

definition RuneError :: nat where
  "RuneError = 0xFFFD"

definition continuation :: "nat \<Rightarrow> bool" where
  "continuation x \<longleftrightarrow> 0x80 \<le> x \<and> x \<le> 0xBF"

text \<open>The rune of \<open>utf8.DecodeRuneInString\<close>, from the bytes of the string.\<close>

definition DecodeRune :: "nat list \<Rightarrow> nat" where
  "DecodeRune s =
     (case s of
        [] \<Rightarrow> RuneError
      | x # xs \<Rightarrow>
          if x < 0x80 then x
          else if 0xC2 \<le> x \<and> x \<le> 0xDF then
            (case xs of
               y # _ \<Rightarrow> if continuation y then (x - 0xC0) * 64 + (y - 0x80) else RuneError
             | _ \<Rightarrow> RuneError)
          else if 0xE0 \<le> x \<and> x \<le> 0xEF then
            (case xs of
               y # z # _ \<Rightarrow>
                 if (if x = 0xE0 then 0xA0 else 0x80) \<le> y \<and> y \<le> (if x = 0xED then 0x9F else 0xBF) \<and> continuation z
                 then ((x - 0xE0) * 64 + (y - 0x80)) * 64 + (z - 0x80) else RuneError
             | _ \<Rightarrow> RuneError)
          else if 0xF0 \<le> x \<and> x \<le> 0xF4 then
            (case xs of
               y # z # v # _ \<Rightarrow>
                 if (if x = 0xF0 then 0x90 else 0x80) \<le> y \<and> y \<le> (if x = 0xF4 then 0x8F else 0xBF) \<and>
                    continuation z \<and> continuation v
                 then (((x - 0xF0) * 64 + (y - 0x80)) * 64 + (z - 0x80)) * 64 + (v - 0x80) else RuneError
             | _ \<Rightarrow> RuneError)
          else RuneError)"

end
