(* ===== verification/Selector_Interface.thy ===== *)
theory Selector_Interface
  imports Go_Strings
begin

text \<open>
  \<open>src/selector/selector.go\<close>: the \<open>Selector\<close> interface as a contract.  The client relies on
  nothing but this contract; every selector of the package that can be created is shown to
  satisfy it in its own theory.
\<close>

text \<open>
  What one \<open>Select\<close> call depends on besides the selector's state: the request, and the number
  the random generator returns during the call.
\<close>

record 'a request =
  rq_path :: string
  rq_method :: string
  rq_args :: 'a
  rq_random :: u32

text \<open>Successive \<open>Select\<close> calls, oldest first.\<close>

primrec select_run :: "('a request \<Rightarrow> 's \<Rightarrow> string \<times> 's) \<Rightarrow> 'a request list \<Rightarrow> 's \<Rightarrow> string list \<times> 's"
where
  "select_run sel [] s = ([], s)"
| "select_run sel (i # is) s =
     (let (a, s) = sel i s; (as, s) = select_run sel is s in (a # as, s))"

text \<open>
  \<open>New\<close> and \<open>UpdateServer\<close> are option-valued because one selector indexes a split address
  without checking it and can panic.  \<open>addrs\<close> lists the addresses a state chooses from.
\<close>

locale selector =
  fixes New :: "strmap \<Rightarrow> 's option"
    and UpdateServer :: "strmap \<Rightarrow> 's \<Rightarrow> 's option"
    and Select :: "'a request \<Rightarrow> 's \<Rightarrow> string \<times> 's"
    and addrs :: "'s \<Rightarrow> string list"
    and invar :: "'s \<Rightarrow> bool"
  assumes New_addrs: "New m = Some s \<Longrightarrow> addrs s = map fst m"
    and New_invar: "New m = Some s \<Longrightarrow> invar s"
    and Update_addrs: "UpdateServer m s = Some s' \<Longrightarrow> addrs s' = map fst m"
    and Update_invar: "invar s \<Longrightarrow> UpdateServer m s = Some s' \<Longrightarrow> invar s'"
    and Select_addrs: "invar s \<Longrightarrow> Select i s = (a, s') \<Longrightarrow> addrs s' = addrs s"
    and Select_invar: "invar s \<Longrightarrow> Select i s = (a, s') \<Longrightarrow> invar s'"
    and Select_empty: "invar s \<Longrightarrow> addrs s = [] \<Longrightarrow> fst (Select i s) = ''''"
    and Select_member: "invar s \<Longrightarrow> addrs s \<noteq> [] \<Longrightarrow> fst (Select i s) \<in> set (addrs s)"
begin

lemma Select_step:
  assumes "invar s" and "Select i s = (a, s')"
  shows "addrs s' = addrs s" and "invar s'"
    and "a \<in> (if addrs s = [] then {''''} else set (addrs s))"
  using assms Select_addrs [OF assms] Select_invar [OF assms] Select_empty [OF assms(1), of i]
    Select_member [OF assms(1), of i] by auto

lemma run_members:
  assumes "invar s" and "addrs s \<noteq> []" and "select_run Select is s = (as, s')"
  shows "set as \<subseteq> set (addrs s) \<and> length as = length is \<and> addrs s' = addrs s \<and> invar s'"
  using assms
proof (induction "is" arbitrary: s as)
  case Nil
  then show ?case by simp
next
  case (Cons i "is")
  obtain a s1 where sel: "Select i s = (a, s1)" by (cases "Select i s")
  obtain as1 s2 where run: "select_run Select is s1 = (as1, s2)"
    by (cases "select_run Select is s1")
  have "addrs s1 = addrs s" "invar s1" "a \<in> set (addrs s)"
    using Cons.prems sel Select_addrs Select_invar Select_member [of s i] by auto
  then show ?case using Cons.IH [of s1 as1] Cons.prems sel run by (auto simp: Let_def)
qed

lemma Select_none_iff:
  assumes "invar s" and "'''' \<notin> set (addrs s)"
  shows "fst (Select i s) = '''' \<longleftrightarrow> addrs s = []"
  using Select_empty [OF assms(1)] Select_member [OF assms(1)] assms(2) by metis

lemma fresh_run:
  assumes "New m = Some s" and "m \<noteq> []" and "select_run Select is s = (as, s')"
  shows "set as \<subseteq> fst ` set m \<and> length as = length is"
  using run_members [of s "is" as s'] assms New_addrs [OF assms(1)] New_invar [OF assms(1)]
  by simp

end

end
