(* ===== verification/Selector_Simple.thy ===== *)
theory Selector_Simple
  imports Selector_Interface
begin

text \<open>
  The random and the round-robin selector (\<open>src/selector/selector_random.go\<close>,
  \<open>selector_roundrobin.go\<close>) with the generator the first one draws from
  (\<open>src/vendor/github.com/valyala/fastrand/fastrand.go\<close>).
\<close>

unbundle bit_operations_syntax

section \<open>fastrand\<close>

definition getRandomUint32 :: "64 word \<Rightarrow> u32" where
  "getRandomUint32 x = ucast (drop_bit 32 x XOR x)"

record RNG =
  rng_x :: u32

definition xorshift :: "u32 \<Rightarrow> u32" where
  "xorshift x =
     (let x = x XOR push_bit 13 x;
          x = x XOR drop_bit 17 x;
          x = x XOR push_bit 5 x
      in x)"

text \<open>
  \<open>RNG.Uint32\<close>.  The loop seeds the generator from successive readings of the clock, which are
  an argument; \<open>None\<close> means that the readings given were not enough to leave the loop.
\<close>

fun RNG_seed :: "64 word list \<Rightarrow> RNG \<Rightarrow> RNG option" where
  "RNG_seed clock r =
     (if rng_x r = 0 then
        (case clock of
           [] \<Rightarrow> None
         | now # clock \<Rightarrow> RNG_seed clock (r\<lparr>rng_x := getRandomUint32 now\<rparr>))
      else Some r)"

declare RNG_seed.simps [simp del]

definition RNG_Uint32 :: "64 word list \<Rightarrow> RNG \<Rightarrow> (u32 \<times> RNG) option" where
  "RNG_Uint32 clock r =
     map_option (\<lambda>r. let x = xorshift (rng_x r) in (x, r\<lparr>rng_x := x\<rparr>)) (RNG_seed clock r)"

text \<open>\<open>Uint32n\<close>, on the number \<open>x\<close> that \<open>Uint32\<close> returned.\<close>

definition Uint32n :: "u32 \<Rightarrow> u32 \<Rightarrow> u32" where
  "Uint32n x maxN = ucast (drop_bit 32 ((ucast x :: u64) * ucast maxN))"

lemma bit_zero_up: "(\<And>n. (\<And>k. k < n \<Longrightarrow> \<not> bit x k) \<Longrightarrow> \<not> bit x n) \<Longrightarrow> x = (0 :: 'a :: len word)"
proof -
  assume step: "\<And>n. (\<And>k. k < n \<Longrightarrow> \<not> bit x k) \<Longrightarrow> \<not> bit x n"
  have "\<not> bit x n" for n by (induction n rule: less_induct) (rule step)
  then show "x = 0" by (auto intro: bit_word_eqI)
qed

lemma shift_up_xor_zero:
  assumes "x XOR push_bit (Suc k) x = 0"
  shows "x = (0 :: 'a :: len word)"
proof (rule bit_zero_up)
  fix n
  assume low: "\<And>j. j < n \<Longrightarrow> \<not> bit x j"
  have "\<not> bit (x XOR push_bit (Suc k) x) n" unfolding assms by simp
  then have "bit x n \<longleftrightarrow> n < LENGTH('a) \<and> Suc k \<le> n \<and> bit x (n - Suc k)"
    by (auto simp: bit_xor_iff bit_push_bit_iff simp del: push_bit_Suc)
  then show "\<not> bit x n" using low [of "n - Suc k"] by auto
qed

lemma shift_down_xor_zero:
  assumes "x XOR drop_bit (Suc k) x = 0"
  shows "x = (0 :: 'a :: len word)"
proof -
  have eq: "bit x n \<longleftrightarrow> bit x (n + Suc k)" for n
  proof -
    have "\<not> bit (x XOR drop_bit (Suc k) x) n" unfolding assms by simp
    then show ?thesis by (simp add: bit_xor_iff bit_drop_bit_eq add.commute del: drop_bit_Suc)
  qed
  have "\<not> bit x n" for n
  proof (induction "LENGTH('a) - n" arbitrary: n rule: less_induct)
    case less
    show ?case
    proof (cases "n < LENGTH('a)")
      case True
      then show ?thesis using less [of "n + Suc k"] eq [of n] by simp
    next
      case False
      then show ?thesis by (auto dest: bit_imp_le_length)
    qed
  qed
  then show ?thesis by (auto intro: bit_word_eqI)
qed

lemma xorshift_zero_iff: "xorshift x = 0 \<longleftrightarrow> x = 0"
proof
  assume zero: "xorshift x = 0"
  define a where "a = x XOR push_bit 13 x"
  define b where "b = a XOR drop_bit 17 a"
  have "b XOR push_bit 5 b = 0" using zero unfolding xorshift_def Let_def a_def b_def .
  then have "a XOR drop_bit 17 a = 0" using shift_up_xor_zero [of b 4] by (simp add: b_def)
  then have "x XOR push_bit 13 x = 0" using shift_down_xor_zero [of a 16] by (simp add: a_def)
  then show "x = 0" using shift_up_xor_zero [of x 12] by simp
qed (simp add: xorshift_def)

lemma unat_u32_le: "unat (w :: u32) \<le> 4294967295"
proof -
  have "unat w < 2 ^ LENGTH(32)" by (rule unsigned_less)
  moreover have "(2 :: nat) ^ LENGTH(32) = Suc 4294967295" by simp
  ultimately show ?thesis by (metis less_Suc_eq_le)
qed

lemma Uint32n_unat: "unat (Uint32n x maxN) = unat x * unat maxN div 2 ^ 32"
proof -
  have "unat x * unat maxN \<le> 4294967295 * 4294967295"
    by (intro mult_le_mono unat_u32_le)
  then have small: "unat x * unat maxN < 2 ^ 64" by simp
  have up: "take_bit 64 (unat w) = unat w" for w :: u32
    using unat_u32_le [of w] by (simp add: take_bit_nat_eq_self)
  have prod: "unat ((ucast x :: u64) * ucast maxN) = unat x * unat maxN"
    using small by (simp add: unat_word_ariths unsigned_ucast_eq up)
  have "unat x * unat maxN div 2 ^ 32 < 2 ^ 32"
    using small by (simp add: div_less_iff_less_mult)
  moreover have "unat (drop_bit 32 ((ucast x :: u64) * ucast maxN)) = unat x * unat maxN div 2 ^ 32"
    unfolding unsigned_drop_bit_eq prod using small by (simp add: take_bit_nat_eq_self drop_bit_eq_div)
  ultimately show ?thesis
    unfolding Uint32n_def unsigned_ucast_eq by (simp add: take_bit_nat_eq_self)
qed

lemma Uint32n_less: "maxN \<noteq> 0 \<Longrightarrow> unat (Uint32n x maxN) < unat maxN"
  using unat_u32_le [of x] by (simp add: Uint32n_unat div_less_iff_less_mult unat_gt_0)

section \<open>The random selector\<close>

record randomSelector =
  rservers :: "string list"

definition newRandomSelector :: "strmap \<Rightarrow> randomSelector" where
  "newRandomSelector servers = \<lparr>rservers = map fst servers\<rparr>"

definition random_Select :: "'a request \<Rightarrow> randomSelector \<Rightarrow> string \<times> randomSelector" where
  "random_Select rq s =
     (let ss = rservers s
      in if length ss = 0 then ('''', s)
         else (ss ! unat (Uint32n (rq_random rq) (of_nat (length ss))), s))"

definition random_UpdateServer :: "strmap \<Rightarrow> randomSelector \<Rightarrow> randomSelector" where
  "random_UpdateServer servers s = s\<lparr>rservers := map fst servers\<rparr>"

interpretation random: selector
  "\<lambda>m. Some (newRandomSelector m)" "\<lambda>m s. Some (random_UpdateServer m s)"
  random_Select rservers "\<lambda>s. True"
proof
  fix s :: randomSelector and i :: "'a request"
  assume "rservers s \<noteq> []"
  let ?n = "length (rservers s)"
  have "unat (Uint32n (rq_random i) (of_nat ?n)) < ?n"
  proof (cases "(of_nat ?n :: u32) = 0")
    case True
    then show ?thesis using \<open>rservers s \<noteq> []\<close> by (simp add: Uint32n_unat)
  next
    case False
    have "unat (of_nat ?n :: u32) \<le> ?n" by (simp add: unat_of_nat)
    then show ?thesis using Uint32n_less [OF False, of "rq_random i"] by simp
  qed
  then show "fst (random_Select i s) \<in> set (rservers s)"
    using \<open>rservers s \<noteq> []\<close> by (simp add: random_Select_def Let_def)
qed (auto simp: newRandomSelector_def random_UpdateServer_def random_Select_def Let_def
    split: if_splits)

section \<open>The round-robin selector\<close>

record roundRobinSelector =
  rrservers :: "string list"
  rri :: nat

definition newRoundRobinSelector :: "strmap \<Rightarrow> roundRobinSelector" where
  "newRoundRobinSelector servers = \<lparr>rrservers = map fst servers, rri = 0\<rparr>"

definition roundRobin_Select :: "'a request \<Rightarrow> roundRobinSelector \<Rightarrow> string \<times> roundRobinSelector" where
  "roundRobin_Select rq s =
     (let ss = rrservers s
      in if length ss = 0 then ('''', s)
         else let i = rri s mod length ss in (ss ! i, s\<lparr>rri := i + 1\<rparr>))"

definition roundRobin_UpdateServer :: "strmap \<Rightarrow> roundRobinSelector \<Rightarrow> roundRobinSelector" where
  "roundRobin_UpdateServer servers s = s\<lparr>rrservers := map fst servers\<rparr>"

interpretation roundRobin: selector
  "\<lambda>m. Some (newRoundRobinSelector m)" "\<lambda>m s. Some (roundRobin_UpdateServer m s)"
  roundRobin_Select rrservers "\<lambda>s. True"
  by unfold_locales
    (auto simp: newRoundRobinSelector_def roundRobin_UpdateServer_def roundRobin_Select_def Let_def
      split: if_splits)

text \<open>The addresses a run returns, and the position it ends at.\<close>

lemma roundRobin_run:
  assumes "rrservers s \<noteq> []"
  shows "fst (select_run roundRobin_Select is s) =
      map (\<lambda>j. rrservers s ! ((rri s + j) mod length (rrservers s))) [0 ..< length is]"
  using assms
proof (induction "is" arbitrary: s)
  case Nil
  then show ?case by simp
next
  case (Cons r "is")
  let ?n = "length (rrservers s)" and ?f = "\<lambda>i j. rrservers s ! ((i + j) mod length (rrservers s))"
  define s1 where "s1 = s\<lparr>rri := rri s mod ?n + 1\<rparr>"
  have sel: "roundRobin_Select r s = (?f (rri s) 0, s1)"
    using Cons.prems by (simp add: roundRobin_Select_def Let_def s1_def)
  have shift: "?f (rri s1) j = ?f (rri s) (Suc j)" for j
  proof -
    have "(rri s mod ?n + 1 + j) mod ?n = (rri s + Suc j) mod ?n"
      using mod_add_left_eq [of "rri s" ?n "Suc j"] by simp
    moreover have "rri s1 = rri s mod ?n + 1" by (simp add: s1_def)
    ultimately show ?thesis by (simp only:)
  qed
  have "fst (select_run roundRobin_Select is s1) = map (?f (rri s1)) [0 ..< length is]"
    using Cons.IH [of s1] Cons.prems by (simp add: s1_def)
  also have "\<dots> = map (?f (rri s)) (map Suc [0 ..< length is])"
    by (simp add: shift del: map_Suc_upt add_Suc_right)
  finally show ?case
    using sel by (simp add: case_prod_beta upt_conv_Cons map_Suc_upt del: upt_Suc)
qed

text \<open>C28: The round-robin selector visits every server once per round, from any state it can be
  in: as many successive calls as there are servers return a rotation of the server list.\<close>

theorem roundRobin_round:
  assumes "length is = length (rrservers s)"
  shows "fst (select_run roundRobin_Select is s) =
    rotate (rri s mod length (rrservers s)) (rrservers s)"
proof (cases "rrservers s = []")
  case True
  then show ?thesis using assms by simp
next
  case False
  show ?thesis
    by (rule nth_equalityI)
      (simp_all add: roundRobin_run [OF False] assms nth_rotate mod_simps add.commute)
qed

theorem roundRobin_round_witness:
  "fst (select_run roundRobin_Select
      (replicate 3 \<lparr>rq_path = ''s'', rq_method = ''m'', rq_args = (), rq_random = 0\<rparr>)
      \<lparr>rrservers = [''a'', ''b'', ''c''], rri = 4\<rparr>) = [''b'', ''c'', ''a'']"
proof -
  have "rotate (4 mod 3) [''a'', ''b'', ''c''] = [''b'', ''c'', ''a'']" by code_simp
  then show ?thesis
    using roundRobin_round [of "replicate 3 \<lparr>rq_path = ''s'', rq_method = ''m'', rq_args = (), rq_random = 0\<rparr>"
        "\<lparr>rrservers = [''a'', ''b'', ''c''], rri = 4\<rparr>"] by simp
qed

text \<open>The random generator never gets stuck and never leaves the range asked for.  A generator
  that has been seeded needs no clock reading, returns a number that is not zero and stays seeded;
  a number reduced to \<open>[0, maxN)\<close> lies in that range.\<close>

lemma RNG_Uint32_total:
  assumes "rng_x r \<noteq> 0" and "maxN \<noteq> 0"
  shows "\<exists>x r'. RNG_Uint32 [] r = Some (x, r') \<and> x \<noteq> 0 \<and> rng_x r' = x \<and> Uint32n x maxN < maxN"
  using assms Uint32n_less [OF assms(2)]
  by (simp add: RNG_Uint32_def RNG_seed.simps Let_def xorshift_zero_iff word_less_nat_alt)

end
