(* ===== verification/Selector_Weighted.thy ===== *)
theory Selector_Weighted
  imports Selector_Interface
begin

text \<open>
  \<open>src/selector/weight.go\<close> and \<open>selector_weight.go\<close>: smooth weighted round robin.  Go's \<open>int\<close>
  is modelled by \<^typ>\<open>int\<close>; \<open>nextWeighted_bounded\<close> below bounds every counter by the number of
  servers times the total weight, so a pool within the 64-bit range never wraps.
\<close>

record Weighted =
  Server :: string
  Weight :: int
  CurrentWeight :: int
  EffectiveWeight :: int

text \<open>
  The loop of \<open>nextWeighted\<close> at index \<open>i\<close>.  \<open>servers\<close> is the store behind the slice of
  pointers, with \<open>None\<close> for a nil pointer; \<open>best\<close> is the index of the server that the pointer
  \<open>best\<close> refers to.
\<close>

function nextWeighted_loop ::
    "nat \<Rightarrow> Weighted option list \<Rightarrow> int \<Rightarrow> nat option
      \<Rightarrow> Weighted option list \<times> int \<times> nat option" where
  "nextWeighted_loop i servers tot best =
     (if i < length servers then
        (case servers ! i of
           None \<Rightarrow> nextWeighted_loop (i + 1) servers tot best
         | Some w \<Rightarrow>
             (let w = w\<lparr>CurrentWeight := CurrentWeight w + EffectiveWeight w\<rparr>;
                  tot = tot + EffectiveWeight w;
                  w = (if EffectiveWeight w < Weight w
                       then w\<lparr>EffectiveWeight := EffectiveWeight w + 1\<rparr> else w);
                  servers = servers[i := Some w];
                  best = (case best of
                            None \<Rightarrow> Some i
                          | Some b \<Rightarrow>
                              (if CurrentWeight w > CurrentWeight (the (servers ! b))
                               then Some i else Some b))
              in nextWeighted_loop (i + 1) servers tot best))
      else (servers, tot, best))"
  by pat_completeness auto
termination
  by (relation "measure (\<lambda>(i, servers, tot, best). length servers - i)")
    (auto simp: Let_def)

declare nextWeighted_loop.simps [simp del]

definition nextWeighted :: "Weighted option list \<Rightarrow> nat option \<times> Weighted option list" where
  "nextWeighted servers =
     (case nextWeighted_loop 0 servers 0 None of
        (servers, tot, None) \<Rightarrow> (None, servers)
      | (servers, tot, Some best) \<Rightarrow>
          (Some best,
           servers[best := map_option (\<lambda>w. w\<lparr>CurrentWeight := CurrentWeight w - tot\<rparr>)
                             (servers ! best)]))"

record weightedSelector =
  wservers :: "Weighted option list"

definition createWeighted :: "strmap \<Rightarrow> Weighted option list" where
  "createWeighted servers =
     map (\<lambda>(k, metadata).
       let w = \<lparr>Server = k, Weight = 1, CurrentWeight = 0, EffectiveWeight = 1\<rparr>
       in Some (case ParseQuery metadata of
                  (v, None) \<Rightarrow>
                    (let ww = values_Get v ''weight''
                     in if ww \<noteq> '''' then
                          (case Atoi ww of
                             Inr weight \<Rightarrow> w\<lparr>Weight := weight, EffectiveWeight := weight\<rparr>
                           | Inl _ \<Rightarrow> w)
                        else w)
                | (v, Some _) \<Rightarrow> w)) servers"

definition newWeightedSelector :: "strmap \<Rightarrow> weightedSelector" where
  "newWeightedSelector servers = \<lparr>wservers = createWeighted servers\<rparr>"

definition weighted_Select :: "'a request \<Rightarrow> weightedSelector \<Rightarrow> string \<times> weightedSelector" where
  "weighted_Select rq s =
     (let ss = wservers s
      in if length ss = 0 then ('''', s)
         else (case nextWeighted ss of
                 (None, ss) \<Rightarrow> ('''', s\<lparr>wservers := ss\<rparr>)
               | (Some w, ss) \<Rightarrow> (Server (the (ss ! w)), s\<lparr>wservers := ss\<rparr>)))"

definition weighted_UpdateServer :: "strmap \<Rightarrow> weightedSelector \<Rightarrow> weightedSelector" where
  "weighted_UpdateServer servers s = s\<lparr>wservers := createWeighted servers\<rparr>"

section \<open>Steady pools\<close>

text \<open>
  A pool as \<open>createWeighted\<close> builds it: no nil pointers and every effective weight at its
  nominal value.  \<open>weights\<close> and \<open>currents\<close> read its two columns.
\<close>

definition steady :: "Weighted option list \<Rightarrow> bool" where
  "steady servers \<longleftrightarrow> (\<forall>x \<in> set servers. \<exists>w. x = Some w \<and> EffectiveWeight w = Weight w)"

definition weights :: "Weighted option list \<Rightarrow> int list" where
  "weights servers = map (\<lambda>x. Weight (the x)) servers"

definition currents :: "Weighted option list \<Rightarrow> int list" where
  "currents servers = map (\<lambda>x. CurrentWeight (the x)) servers"

lemma length_currents [simp]: "length (currents s) = length s"
  by (simp add: currents_def)

lemma length_weights [simp]: "length (weights s) = length s"
  by (simp add: weights_def)

text \<open>One entry after the loop has passed it.\<close>

definition bump :: "Weighted option \<Rightarrow> Weighted option" where
  "bump x = map_option (\<lambda>w. w\<lparr>CurrentWeight := CurrentWeight w + Weight w\<rparr>) x"

lemma steady_nth: "steady servers \<Longrightarrow> i < length servers \<Longrightarrow>
    \<exists>w. servers ! i = Some w \<and> EffectiveWeight w = Weight w"
  by (auto simp: steady_def)

text \<open>
  The loop invariant: entries before \<open>i\<close> are bumped, those from \<open>i\<close> on are as in the original
  \<open>s\<close>, \<open>total\<close> is the weight passed so far and \<open>best\<close> is the first maximum of the bumped ones.
\<close>

definition passed :: "Weighted option list \<Rightarrow> nat \<Rightarrow> Weighted option list" where
  "passed s i = map bump (take i s) @ drop i s"

definition first_max :: "int list \<Rightarrow> nat \<Rightarrow> bool" where
  "first_max xs b \<longleftrightarrow> b < length xs \<and> (\<forall>j < length xs. xs ! j \<le> xs ! b) \<and> (\<forall>j < b. xs ! j < xs ! b)"

definition best_of :: "Weighted option list \<Rightarrow> nat \<Rightarrow> nat option \<Rightarrow> bool" where
  "best_of s i best \<longleftrightarrow>
     (case best of None \<Rightarrow> i = 0 | Some b \<Rightarrow> first_max (take i (currents (map bump s))) b)"

lemma passed_step:
  assumes "i < length s"
  shows "(passed s i)[i := bump (s ! i)] = passed s (Suc i)"
  using assms
  by (intro nth_equalityI)
    (auto simp: passed_def nth_append nth_list_update less_Suc_eq take_Suc_conv_app_nth)

lemma passed_nth:
  "i < length s \<Longrightarrow> passed s i ! i = s ! i"
  "b < i \<Longrightarrow> i \<le> length s \<Longrightarrow> passed s i ! b = bump (s ! b)"
  by (simp_all add: passed_def nth_append min_def)

lemma length_passed [simp]: "length (passed s i) = length s"
  by (simp add: passed_def)

lemma first_max_snoc_new:
  assumes "first_max xs b" and "xs ! b < x"
  shows "first_max (xs @ [x]) (length xs)"
  using assms by (force simp: first_max_def nth_append less_Suc_eq)

lemma first_max_snoc_old:
  assumes "first_max xs b" and "x \<le> xs ! b"
  shows "first_max (xs @ [x]) b"
  using assms by (auto simp: first_max_def nth_append less_Suc_eq)

lemma take_currents_Suc:
  "i < length s \<Longrightarrow> take (Suc i) (currents (map bump s)) =
     take i (currents (map bump s)) @ [CurrentWeight (the (bump (s ! i)))]"
  by (simp add: currents_def take_Suc_conv_app_nth)

lemma nextWeighted_loop_steady:
  assumes "steady s" and "i \<le> length s" and "best_of s i best"
  shows "\<exists>best'. nextWeighted_loop i (passed s i) (sum_list (take i (weights s))) best =
      (map bump s, sum_list (weights s), best') \<and> best_of s (length s) best'"
  using assms(2,3)
proof (induction "length s - i" arbitrary: i best)
  case 0
  then have "i = length s" by simp
  then show ?case
    using 0 by (subst nextWeighted_loop.simps) (simp add: passed_def weights_def)
next
  case (Suc k)
  then have i: "i < length s" by simp
  obtain w where w: "s ! i = Some w" "EffectiveWeight w = Weight w"
    using steady_nth [OF assms(1) i] by blast
  let ?w = "w\<lparr>CurrentWeight := CurrentWeight w + Weight w\<rparr>"
  let ?best = "case best of None \<Rightarrow> Some i | Some b \<Rightarrow>
      if CurrentWeight ?w > CurrentWeight (the (passed s (Suc i) ! b)) then Some i else Some b"
  have bump: "bump (s ! i) = Some ?w" by (simp add: bump_def w)
  have cur: "CurrentWeight (the (passed s (Suc i) ! b)) = take i (currents (map bump s)) ! b"
    if "b < i" for b
    using that i passed_nth(2) [of b "Suc i" s] by (simp add: currents_def)
  have best': "best_of s (Suc i) ?best"
  proof (cases best)
    case None
    then show ?thesis
      using Suc.prems i by (simp add: best_of_def take_currents_Suc first_max_def)
  next
    case (Some b)
    then have fm: "first_max (take i (currents (map bump s))) b" and "b < i"
      using Suc.prems by (auto simp: best_of_def first_max_def)
    show ?thesis
      using Some i cur [OF \<open>b < i\<close>] bump first_max_snoc_new [OF fm] first_max_snoc_old [OF fm]
      by (auto simp: best_of_def take_currents_Suc not_less)
  qed
  have "nextWeighted_loop i (passed s i) (sum_list (take i (weights s))) best =
      nextWeighted_loop (Suc i) (passed s (Suc i)) (sum_list (take (Suc i) (weights s))) ?best"
    using i w passed_nth(1) [OF i] passed_step [OF i] bump
    by (subst nextWeighted_loop.simps)
      (simp add: Let_def take_Suc_conv_app_nth weights_def cong: option.case_cong)
  moreover have "k = length s - Suc i" using Suc.hyps(2) by simp
  ultimately show ?case using Suc.hyps(1) [of "Suc i" ?best] i best' by simp
qed


lemma best_of_Some: "best_of s (length s) best \<Longrightarrow> s \<noteq> [] \<Longrightarrow>
    \<exists>b. best = Some b \<and> first_max (currents (map bump s)) b"
  by (auto simp: best_of_def split: option.splits)

lemma in_set_list_update: "x \<in> set (xs[i := y]) \<Longrightarrow> x = y \<or> x \<in> set xs"
  using set_update_subset_insert [of xs i y] by auto

definition settle :: "int \<Rightarrow> nat \<Rightarrow> Weighted option list \<Rightarrow> Weighted option list" where
  "settle tot b s = s[b := map_option (\<lambda>w. w\<lparr>CurrentWeight := CurrentWeight w - tot\<rparr>) (s ! b)]"

lemma nextWeighted_steady:
  assumes "steady s" and "s \<noteq> []"
  obtains b where "first_max (currents (map bump s)) b"
    and "nextWeighted s = (Some b, settle (sum_list (weights s)) b (map bump s))"
proof -
  obtain best where loop: "nextWeighted_loop 0 s 0 None =
      (map bump s, sum_list (weights s), best)" "best_of s (length s) best"
    using nextWeighted_loop_steady [OF assms(1), of 0 None] by (auto simp: best_of_def passed_def)
  then show thesis
    using best_of_Some [OF loop(2) assms(2)] that by (auto simp: nextWeighted_def settle_def)
qed

text \<open>The columns after one pick.\<close>

lemma steady_Some: "steady s \<Longrightarrow> x \<in> set s \<Longrightarrow> \<exists>w. x = Some w"
  by (auto simp: steady_def)

lemma bump_columns:
  assumes "steady s"
  shows "steady (map bump s)" and "weights (map bump s) = weights s"
    and "i < length s \<Longrightarrow> currents (map bump s) ! i = currents s ! i + weights s ! i"
proof -
  show "steady (map bump s)" using assms by (force simp: steady_def bump_def)
  show "weights (map bump s) = weights s"
    using steady_Some [OF assms] by (fastforce simp: weights_def bump_def)
  show "currents (map bump s) ! i = currents s ! i + weights s ! i" if "i < length s"
    using steady_Some [OF assms nth_mem [OF that]] that
    by (auto simp: weights_def currents_def bump_def)
qed

lemma settle_columns:
  assumes "steady s" and "b < length s"
  shows "steady (settle tot b s)" and "weights (settle tot b s) = weights s"
    and "currents (settle tot b s) = (currents s)[b := currents s ! b - tot]"
    and "map (\<lambda>x. Server (the x)) (settle tot b s) = map (\<lambda>x. Server (the x)) s"
proof -
  obtain w where w: "s ! b = Some w" "EffectiveWeight w = Weight w"
    using steady_nth [OF assms] by blast
  show "steady (settle tot b s)"
    using assms(1) w by (auto simp: steady_def settle_def dest!: in_set_list_update)
  show "weights (settle tot b s) = weights s"
    using assms(2) w by (intro nth_equalityI) (auto simp: weights_def settle_def nth_list_update)
  show "currents (settle tot b s) = (currents s)[b := currents s ! b - tot]"
    using assms(2) w by (intro nth_equalityI) (auto simp: currents_def settle_def nth_list_update)
  show "map (\<lambda>x. Server (the x)) (settle tot b s) = map (\<lambda>x. Server (the x)) s"
    using assms(2) w by (intro nth_equalityI) (auto simp: settle_def nth_list_update)
qed

text \<open>
  What one call does to the counters, as arithmetic on the two columns: everyone gains its
  weight, and the first maximum pays the total.
\<close>

lemma nextWeighted_columns:
  assumes "steady s" and "s \<noteq> []"
  obtains b s' where "nextWeighted s = (Some b, s')" and "steady s'" and "b < length s"
    and "length s' = length s" and "weights s' = weights s"
    and "map (\<lambda>x. Server (the x)) s' = map (\<lambda>x. Server (the x)) s"
    and "\<And>i. i < length s \<Longrightarrow> currents s' ! i =
      currents s ! i + weights s ! i - (if i = b then sum_list (weights s) else 0)"
    and "\<And>i. i < length s \<Longrightarrow>
      currents s ! i + weights s ! i \<le> currents s ! b + weights s ! b"
proof -
  obtain b where max: "first_max (currents (map bump s)) b"
    and call: "nextWeighted s = (Some b, settle (sum_list (weights s)) b (map bump s))"
    using nextWeighted_steady [OF assms] by blast
  have b: "b < length (map bump s)" using max by (simp add: first_max_def)
  note bc = bump_columns [OF assms(1)]
  note sc = settle_columns [OF bc(1) b, of "sum_list (weights s)"]
  have server: "map (\<lambda>x. Server (the x)) (map bump s) = map (\<lambda>x. Server (the x)) s"
    using steady_Some [OF assms(1)] by (fastforce simp: bump_def)
  show thesis
  proof (rule that [OF call])
    show "steady (settle (sum_list (weights s)) b (map bump s))" by (rule sc(1))
    show "weights (settle (sum_list (weights s)) b (map bump s)) = weights s"
      by (simp add: sc(2) bc(2))
    show "map (\<lambda>x. Server (the x)) (settle (sum_list (weights s)) b (map bump s)) =
        map (\<lambda>x. Server (the x)) s"
      using sc(4) server by simp
    show "currents (settle (sum_list (weights s)) b (map bump s)) ! i =
        currents s ! i + weights s ! i - (if i = b then sum_list (weights s) else 0)"
      if "i < length s" for i
      using that b bc(3) by (simp add: sc(3) nth_list_update)
    show "currents s ! i + weights s ! i \<le> currents s ! b + weights s ! b"
      if "i < length s" for i
      using that b max bc(3) by (auto simp: first_max_def)
  qed (use b in \<open>simp_all add: settle_def\<close>)
qed

text \<open>\<open>k\<close> successive picks, oldest first.\<close>

fun picks :: "nat \<Rightarrow> Weighted option list \<Rightarrow> nat list \<times> Weighted option list" where
  "picks 0 s = ([], s)"
| "picks (Suc k) s =
     (case nextWeighted s of
        (None, s) \<Rightarrow> ([], s)
      | (Some b, s) \<Rightarrow> (let (ps, s) = picks k s in (b # ps, s)))"

text \<open>
  The counters of a pool in service: they sum to zero and none has sunk to minus the total
  weight.
\<close>

definition balanced :: "Weighted option list \<Rightarrow> bool" where
  "balanced s \<longleftrightarrow> steady s \<and> s \<noteq> [] \<and> (\<forall>w \<in> set (weights s). 0 \<le> w) \<and>
     0 < sum_list (weights s) \<and> sum_list (currents s) = 0 \<and>
     (\<forall>c \<in> set (currents s). - sum_list (weights s) < c)"

lemma sum_list_conv_nth: "length xs = n \<Longrightarrow> sum_list xs = (\<Sum>i<n. xs ! i)" for xs :: "int list"
  by (simp add: sum_list_sum_nth atLeast0LessThan)

lemma nextWeighted_balanced:
  assumes "balanced s" and "nextWeighted s = (p, s')"
  obtains b where "p = Some b" and "balanced s'" and "b < length s"
    and "length s' = length s" and "weights s' = weights s"
    and "map (\<lambda>x. Server (the x)) s' = map (\<lambda>x. Server (the x)) s"
    and "\<And>i. i < length s \<Longrightarrow> currents s' ! i =
      currents s ! i + weights s ! i - (if i = b then sum_list (weights s) else 0)"
proof -
  let ?W = "sum_list (weights s)" and ?n = "length s"
  have st: "steady s" "s \<noteq> []" and w0: "\<And>i. i < ?n \<Longrightarrow> 0 \<le> weights s ! i" and W: "0 < ?W"
    and zero: "sum_list (currents s) = 0" and low: "\<And>i. i < ?n \<Longrightarrow> - ?W < currents s ! i"
    using assms(1) by (auto simp: balanced_def all_set_conv_all_nth)
  have "\<exists>b. p = Some b \<and> steady s' \<and> b < ?n \<and> length s' = ?n \<and> weights s' = weights s \<and>
      map (\<lambda>x. Server (the x)) s' = map (\<lambda>x. Server (the x)) s \<and>
      (\<forall>i < ?n. currents s' ! i = currents s ! i + weights s ! i - (if i = b then ?W else 0)) \<and>
      (\<forall>i < ?n. currents s ! i + weights s ! i \<le> currents s ! b + weights s ! b)"
    by (rule nextWeighted_columns [OF st]) (use assms(2) in simp)
  then obtain b where b: "p = Some b" "steady s'" "b < ?n" "length s' = ?n" "weights s' = weights s"
    "map (\<lambda>x. Server (the x)) s' = map (\<lambda>x. Server (the x)) s"
    and cur: "\<And>i. i < ?n \<Longrightarrow> currents s' ! i =
      currents s ! i + weights s ! i - (if i = b then ?W else 0)"
    and max: "\<And>i. i < ?n \<Longrightarrow> currents s ! i + weights s ! i \<le> currents s ! b + weights s ! b"
    by blast
  have sums: "(\<Sum>i<?n. currents s ! i) = 0" "(\<Sum>i<?n. weights s ! i) = ?W"
    using zero sum_list_conv_nth [of "currents s" ?n] sum_list_conv_nth [of "weights s" ?n] by simp_all
  have "sum_list (currents s') = (\<Sum>i<?n. currents s ! i + weights s ! i - (if i = b then ?W else 0))"
    using b(4) cur by (subst sum_list_conv_nth [of _ ?n]) auto
  also have "\<dots> = 0"
    using b(3) sums by (simp add: sum_subtractf sum.distrib)
  finally have zero': "sum_list (currents s') = 0" .
  have "0 < currents s ! b + weights s ! b"
  proof (rule ccontr)
    assume "\<not> 0 < currents s ! b + weights s ! b"
    then have "(\<Sum>i<?n. currents s ! i + weights s ! i) \<le> 0"
      using max by (intro sum_nonpos) force
    then show False using sums W by (simp add: sum.distrib)
  qed
  then have low': "- ?W < currents s' ! i" if "i < ?n" for i
    using cur [OF that] low [OF that] w0 [OF that] by auto
  have "balanced s'"
    using b st zero' low' W w0 unfolding balanced_def
    by (auto simp: all_set_conv_all_nth)
  then show thesis using that b cur by blast
qed


lemma picks_balanced:
  assumes "balanced s" and "picks k s = (ps, s')"
  shows "balanced s' \<and> length ps = k \<and> set ps \<subseteq> {..<length s} \<and> length s' = length s \<and>
    weights s' = weights s \<and> map (\<lambda>x. Server (the x)) s' = map (\<lambda>x. Server (the x)) s \<and>
    (\<forall>i < length s. currents s' ! i =
       currents s ! i + int k * weights s ! i - sum_list (weights s) * int (count_list ps i))"
  using assms
proof (induction k arbitrary: s ps s')
  case 0
  then show ?case by simp
next
  case (Suc k)
  obtain p s1 where call: "nextWeighted s = (p, s1)" by (cases "nextWeighted s")
  obtain b where b: "p = Some b" "balanced s1" "b < length s" "length s1 = length s"
    "weights s1 = weights s" "map (\<lambda>x. Server (the x)) s1 = map (\<lambda>x. Server (the x)) s"
    and cur: "\<And>i. i < length s \<Longrightarrow> currents s1 ! i =
      currents s ! i + weights s ! i - (if i = b then sum_list (weights s) else 0)"
    using nextWeighted_balanced [OF Suc.prems(1) call] by blast
  obtain ps1 s2 where run: "picks k s1 = (ps1, s2)" by (cases "picks k s1")
  note IH = Suc.IH [OF b(2) run]
  have ps: "ps = b # ps1" "s' = s2" using Suc.prems(2) run call b(1) by simp_all
  have "currents s2 ! i =
      currents s ! i + int (Suc k) * weights s ! i - sum_list (weights s) * int (count_list ps i)"
    if "i < length s" for i
  proof -
    have "currents s2 ! i =
        currents s1 ! i + int k * weights s ! i - sum_list (weights s) * int (count_list ps1 i)"
      using IH that b(4,5) by simp
    then show ?thesis using cur [OF that]
      by (cases "i = b") (simp_all add: ps(1) distrib_left distrib_right)
  qed
  then show ?case using IH b ps by auto
qed

lemma sum_zero_nonneg:
  fixes c :: "int list"
  assumes "sum_list c = 0" and "\<forall>x \<in> set c. 0 \<le> x"
  shows "\<forall>x \<in> set c. x = 0"
  using assms by (metis sum_list_nonneg_eq_0_iff)

text \<open>
  After as many picks as the total weight, the counters are back at zero: each is then a
  multiple of the total weight above minus the total weight, and they sum to zero.
\<close>

lemma picks_period:
  assumes "balanced s" and zero: "\<forall>c \<in> set (currents s). c = 0"
    and run: "picks (nat (sum_list (weights s))) s = (ps, s')"
  shows "\<forall>c \<in> set (currents s'). c = 0"
    and "i < length s \<Longrightarrow> int (count_list ps i) = weights s ! i"
proof -
  let ?W = "sum_list (weights s)"
  have W: "0 < ?W" using assms(1) by (simp add: balanced_def)
  have bal: "balanced s'" and len: "length s' = length s" and same: "weights s' = weights s"
    and cur: "\<And>i. i < length s \<Longrightarrow> currents s' ! i = ?W * (weights s ! i - int (count_list ps i))"
    using picks_balanced [OF assms(1) run] zero W
    by (simp_all add: algebra_simps all_set_conv_all_nth)
  have "0 \<le> currents s' ! i" if "i < length s" for i
  proof -
    have "- ?W < ?W * (weights s ! i - int (count_list ps i))"
      using bal that len same cur [OF that] by (auto simp: balanced_def all_set_conv_all_nth)
    then have "?W * - 1 < ?W * (weights s ! i - int (count_list ps i))" by simp
    then have "- 1 < weights s ! i - int (count_list ps i)"
      using W mult_less_cancel_left_pos by blast
    then show ?thesis using W by (simp add: cur [OF that])
  qed
  then show zero': "\<forall>c \<in> set (currents s'). c = 0"
    using bal len by (intro sum_zero_nonneg) (auto simp: balanced_def all_set_conv_all_nth)
  show "int (count_list ps i) = weights s ! i" if "i < length s"
    using zero' that len cur [OF that] W by (auto simp: all_set_conv_all_nth)
qed

lemma balanced_bounds:
  assumes "balanced s" and "i < length s"
  shows "\<bar>currents s ! i\<bar> \<le> int (length s) * sum_list (weights s)"
proof -
  let ?W = "sum_list (weights s)" and ?n = "length s"
  have W: "0 < ?W" and low: "\<And>j. j < ?n \<Longrightarrow> - ?W < currents s ! j" and zero: "sum_list (currents s) = 0"
    using assms(1) by (auto simp: balanced_def all_set_conv_all_nth)
  have "0 = (\<Sum>j<?n. currents s ! j)" using zero by (simp add: sum_list_conv_nth)
  also have "\<dots> = currents s ! i + (\<Sum>j\<in>{..<?n} - {i}. currents s ! j)"
    using assms(2) by (intro sum.remove) auto
  finally have eq: "currents s ! i = - (\<Sum>j\<in>{..<?n} - {i}. currents s ! j)" by simp
  have "(\<Sum>j\<in>{..<?n} - {i}. - ?W) \<le> (\<Sum>j\<in>{..<?n} - {i}. currents s ! j)"
    using low by (intro sum_mono) (auto intro: less_imp_le)
  then have "currents s ! i \<le> int (?n - 1) * ?W"
    using eq assms(2) by (simp add: card_Diff_singleton)
  also have "\<dots> \<le> int ?n * ?W" using W by (intro mult_right_mono) simp_all
  finally have "currents s ! i \<le> int ?n * ?W" .
  moreover have "- (int ?n * ?W) \<le> - ?W"
    using W assms(2) by (simp add: mult_le_cancel_right1)
  ultimately show ?thesis using low [OF assms(2)] by linarith
qed

section \<open>The selector\<close>

definition waddrs :: "weightedSelector \<Rightarrow> string list" where
  "waddrs s = map (\<lambda>x. Server (the x)) (wservers s)"

lemma length_waddrs [simp]: "length (waddrs s) = length (wservers s)"
  by (simp add: waddrs_def)

definition no_nil :: "Weighted option list \<Rightarrow> bool" where
  "no_nil ss \<longleftrightarrow> None \<notin> set ss"

lemma names_update:
  assumes "i < length ss" and "ss ! i = Some w" and "Server w' = Server w"
  shows "map (\<lambda>x. Server (the x)) (ss[i := Some w']) = map (\<lambda>x. Server (the x)) ss"
  using assms by (simp add: map_update list_update_same_conv)

lemma nextWeighted_loop_no_nil:
  assumes "no_nil ss" and "i \<le> length ss" and "\<forall>b. best = Some b \<longrightarrow> b < length ss"
    and "best = None \<longrightarrow> i = 0" and "nextWeighted_loop i ss tot best = (ss', tot', best')"
  shows "no_nil ss' \<and> length ss' = length ss \<and> (\<forall>b. best' = Some b \<longrightarrow> b < length ss) \<and>
    (ss \<noteq> [] \<longrightarrow> best' \<noteq> None) \<and>
    map (\<lambda>x. Server (the x)) ss' = map (\<lambda>x. Server (the x)) ss"
  using assms
proof (induction i ss tot best rule: nextWeighted_loop.induct)
  case (1 i ss tot best)
  show ?case
  proof (cases "i < length ss")
    case False
    then have "nextWeighted_loop i ss tot best = (ss, tot, best)"
      by (subst nextWeighted_loop.simps) simp
    then show ?thesis using "1.prems" False by auto
  next
    case True
    obtain w where w: "ss ! i = Some w"
      using "1.prems"(1) True nth_mem [OF True] by (cases "ss ! i") (auto simp: no_nil_def)
    define w1 where "w1 = w\<lparr>CurrentWeight := CurrentWeight w + EffectiveWeight w\<rparr>"
    define w2 where "w2 = (if EffectiveWeight w1 < Weight w1
      then w1\<lparr>EffectiveWeight := EffectiveWeight w1 + 1\<rparr> else w1)"
    define ss1 where "ss1 = ss[i := Some w2]"
    define best1 where "best1 = (case best of None \<Rightarrow> Some i | Some b \<Rightarrow>
      if CurrentWeight w2 > CurrentWeight (the (ss1 ! b)) then Some i else Some b)"
    note defs = w1_def w2_def ss1_def best1_def
    have "Server w2 = Server w" by (simp add: defs(1,2))
    then have names: "map (\<lambda>x. Server (the x)) ss1 = map (\<lambda>x. Server (the x)) ss"
      unfolding ss1_def by (rule names_update [OF True w])
    have step: "nextWeighted_loop i ss tot best =
        nextWeighted_loop (i + 1) ss1 (tot + EffectiveWeight w1) best1"
      by (subst nextWeighted_loop.simps) (simp only: True if_True w option.case Let_def defs)
    have "no_nil ss1" "length ss1 = length ss" "\<forall>b. best1 = Some b \<longrightarrow> b < length ss1" "best1 \<noteq> None"
      using "1.prems"(1,3) True
      by (auto simp: ss1_def best1_def no_nil_def split: option.splits if_splits dest!: in_set_list_update)
    with "1.IH"(2) [OF True w w1_def refl w2_def ss1_def best1_def] "1.prems"(5) step names True
    show ?thesis by fastforce
  qed
qed


lemma nextWeighted_no_nil:
  assumes "no_nil ss" and "ss \<noteq> []" and "nextWeighted ss = (p, ss')"
  shows "\<exists>b. p = Some b \<and> b < length ss \<and> no_nil ss' \<and> length ss' = length ss \<and>
    map (\<lambda>x. Server (the x)) ss' = map (\<lambda>x. Server (the x)) ss"
proof -
  obtain ss1 tot best where loop: "nextWeighted_loop 0 ss 0 None = (ss1, tot, best)"
    by (cases "nextWeighted_loop 0 ss 0 None")
  note inv = nextWeighted_loop_no_nil [OF assms(1) _ _ _ loop]
  obtain b where b: "best = Some b" "b < length ss" using inv assms(2) by auto
  have "no_nil ss1" "length ss1 = length ss"
    "map (\<lambda>x. Server (the x)) ss1 = map (\<lambda>x. Server (the x)) ss"
    using inv by simp_all
  moreover obtain w where w: "ss1 ! b = Some w"
    using calculation b nth_mem [of b ss1] by (cases "ss1 ! b") (auto simp: no_nil_def)
  moreover have ss': "p = Some b" "ss' = ss1[b := Some (w\<lparr>CurrentWeight := CurrentWeight w - tot\<rparr>)]"
    using assms(3) loop b w by (simp_all add: nextWeighted_def)
  moreover have "map (\<lambda>x. Server (the x)) ss' = map (\<lambda>x. Server (the x)) ss1"
    unfolding ss'(2) using b(2) calculation(2) w by (intro names_update) simp_all
  ultimately show ?thesis
    using b(2) by (auto simp: no_nil_def dest!: in_set_list_update)
qed

lemma weighted_Select_step:
  assumes "no_nil (wservers s)" and "wservers s \<noteq> []"
  obtains b ss' where "nextWeighted (wservers s) = (Some b, ss')" and "b < length (wservers s)"
    and "weighted_Select rq s = (waddrs s ! b, s\<lparr>wservers := ss'\<rparr>)" and "no_nil ss'"
    and "waddrs (s\<lparr>wservers := ss'\<rparr>) = waddrs s"
proof -
  obtain p ss' where call: "nextWeighted (wservers s) = (p, ss')"
    by (cases "nextWeighted (wservers s)")
  obtain b where b: "p = Some b" "b < length (wservers s)" "no_nil ss'" "length ss' = length (wservers s)"
    "map (\<lambda>x. Server (the x)) ss' = waddrs s"
    using nextWeighted_no_nil [OF assms call] by (auto simp: waddrs_def)
  have "Server (the (ss' ! b)) = waddrs s ! b"
    using b(2,4,5) by (metis nth_map)
  then show thesis
    using that [of b ss'] call b assms(2) by (simp add: weighted_Select_def waddrs_def)
qed

lemma createWeighted_no_nil: "no_nil (createWeighted m)"
  by (auto simp: no_nil_def createWeighted_def Let_def)

lemma createWeighted_addrs: "map (\<lambda>x. Server (the x)) (createWeighted m) = map fst m"
  by (auto simp: createWeighted_def Let_def split: prod.splits option.splits sum.splits)

interpretation weighted: selector
  "\<lambda>m. Some (newWeightedSelector m)" "\<lambda>m s. Some (weighted_UpdateServer m s)"
  weighted_Select waddrs "\<lambda>s. no_nil (wservers s)"
proof
  fix s s' :: weightedSelector and i :: "'a request" and a
  assume inv: "no_nil (wservers s)"
  have "waddrs s' = waddrs s \<and> no_nil (wservers s')" if sel: "weighted_Select i s = (a, s')"
  proof (cases "wservers s = []")
    case True
    then show ?thesis using sel inv by (simp add: weighted_Select_def)
  next
    case False
    then obtain b ss' where "weighted_Select i s = (waddrs s ! b, s\<lparr>wservers := ss'\<rparr>)" "no_nil ss'"
      "waddrs (s\<lparr>wservers := ss'\<rparr>) = waddrs s"
      using weighted_Select_step [OF inv, of i] by blast
    then show ?thesis using sel by auto
  qed
  then show "waddrs s' = waddrs s" "no_nil (wservers s')" if "weighted_Select i s = (a, s')"
    using that by simp_all
  show "fst (weighted_Select i s) \<in> set (waddrs s)" if "waddrs s \<noteq> []"
  proof -
    have "wservers s \<noteq> []" using that by (simp add: waddrs_def)
    then obtain b ss' where "b < length (wservers s)"
      "weighted_Select i s = (waddrs s ! b, s\<lparr>wservers := ss'\<rparr>)"
      using weighted_Select_step [OF inv, of i] by blast
    then show ?thesis by simp
  qed
qed (auto simp: newWeightedSelector_def weighted_UpdateServer_def waddrs_def weighted_Select_def
    createWeighted_addrs createWeighted_no_nil)

text \<open>Calls of \<open>Select\<close> are picks, and a balanced pool stays balanced under them.\<close>

lemma balanced_no_nil: "balanced ss \<Longrightarrow> no_nil ss \<and> ss \<noteq> []"
  by (auto simp: balanced_def steady_def no_nil_def)

lemma select_run_picks:
  assumes "balanced (wservers s)" and "picks (length is) (wservers s) = (ps, ss')"
  shows "select_run weighted_Select is s = (map (\<lambda>b. waddrs s ! b) ps, s\<lparr>wservers := ss'\<rparr>)"
  using assms
proof (induction "is" arbitrary: s ps)
  case Nil
  then show ?case by simp
next
  case (Cons i "is")
  note nn = balanced_no_nil [OF Cons.prems(1)]
  obtain b ss1 where call: "nextWeighted (wservers s) = (Some b, ss1)"
    and sel: "weighted_Select i s = (waddrs s ! b, s\<lparr>wservers := ss1\<rparr>)"
    and same: "waddrs (s\<lparr>wservers := ss1\<rparr>) = waddrs s"
    using weighted_Select_step [of s i] nn by metis
  have "balanced ss1" using nextWeighted_balanced [OF Cons.prems(1) call] by blast
  moreover obtain ps1 where "ps = b # ps1" "picks (length is) ss1 = (ps1, ss')"
    using Cons.prems(2) call by (auto split: prod.splits)
  ultimately show ?case
    using Cons.IH [of "s\<lparr>wservers := ss1\<rparr>" ps1] sel same by simp
qed

lemma count_list_map_nth:
  assumes "distinct xs" and "set ps \<subseteq> {..<length xs}" and "i < length xs"
  shows "count_list (map (\<lambda>b. xs ! b) ps) (xs ! i) = count_list ps i"
  using assms(2)
proof (induction ps)
  case (Cons b ps)
  then have "xs ! b = xs ! i \<longleftrightarrow> b = i" using assms(1,3) by (simp add: nth_eq_iff_index_eq)
  then show ?case using Cons by simp
qed simp

lemma createWeighted_steady: "steady (createWeighted m)"
  by (auto simp: steady_def createWeighted_def Let_def split: prod.splits option.splits sum.splits)

lemma createWeighted_currents: "\<forall>c \<in> set (currents (createWeighted m)). c = 0"
  by (auto simp: currents_def createWeighted_def Let_def split: prod.splits option.splits sum.splits)

lemma sum_list_all_zero: "\<forall>x \<in> set xs. x = 0 \<Longrightarrow> sum_list xs = (0 :: int)"
  by (induction xs) simp_all

lemma createWeighted_balanced:
  assumes "\<forall>w \<in> set (weights (createWeighted m)). 0 \<le> w" and "0 < sum_list (weights (createWeighted m))"
  shows "balanced (createWeighted m)"
proof -
  have "createWeighted m \<noteq> []" using assms(2) by (auto simp: weights_def)
  moreover have "sum_list (currents (createWeighted m)) = 0"
    by (rule sum_list_all_zero [OF createWeighted_currents])
  ultimately show ?thesis
    using assms createWeighted_steady [of m] createWeighted_currents [of m] by (auto simp: balanced_def)
qed

text \<open>A steady pool is determined by its columns.\<close>

lemma steady_eqI:
  assumes "steady s" and "steady t" and "weights s = weights t" and "currents s = currents t"
    and "map (\<lambda>x. Server (the x)) s = map (\<lambda>x. Server (the x)) t"
  shows "s = t"
proof (rule nth_equalityI)
  show len: "length s = length t" using assms(3) by (metis length_weights)
  fix i
  assume i: "i < length s"
  obtain v w where "s ! i = Some v" "EffectiveWeight v = Weight v"
    "t ! i = Some w" "EffectiveWeight w = Weight w"
    using steady_nth [OF assms(1) i] steady_nth [OF assms(2), of i] i len by auto
  moreover have "weights s ! i = weights t ! i" "currents s ! i = currents t ! i"
    "map (\<lambda>x. Server (the x)) s ! i = map (\<lambda>x. Server (the x)) t ! i"
    using assms by simp_all
  ultimately show "s ! i = t ! i"
    using i len by (auto simp: weights_def currents_def intro: Weighted.equality)
qed

text \<open>A pool in which every weight is zero always yields its first server.\<close>

lemma nextWeighted_zero:
  assumes "steady s" and "s \<noteq> []" and w: "\<forall>w \<in> set (weights s). w = 0"
    and c: "\<forall>c \<in> set (currents s). c = 0"
  shows "nextWeighted s = (Some 0, s)"
proof -
  obtain b where max: "first_max (currents (map bump s)) b"
    and call: "nextWeighted s = (Some b, settle (sum_list (weights s)) b (map bump s))"
    using nextWeighted_steady [OF assms(1,2)] by blast
  have same: "map bump s = s"
  proof (rule map_idI)
    fix x
    assume "x \<in> set s"
    moreover from this obtain v where "x = Some v" using steady_Some [OF assms(1)] by blast
    ultimately show "bump x = x" using w by (auto simp: bump_def weights_def)
  qed
  have "\<forall>j < b. False" using max c unfolding same by (auto simp: first_max_def all_set_conv_all_nth)
  then have "b = 0" by blast
  moreover have "settle 0 0 s = s" by (cases s) (auto simp: settle_def option.map_ident)
  ultimately show ?thesis using call sum_list_all_zero [OF w] by (simp add: same)
qed

section \<open>Fairness and bounds of the selector\<close>

text \<open>One round: as many calls as the weights add up to.\<close>

lemma weighted_round:
  assumes nonneg: "\<forall>w \<in> set (weights (createWeighted m)). 0 \<le> w"
    and pos: "0 < sum_list (weights (createWeighted m))"
    and dist: "distinct (map fst m)"
    and len: "length is = nat (sum_list (weights (createWeighted m)))"
    and run: "select_run weighted_Select is (newWeightedSelector m) = (as, s')"
  shows "s' = newWeightedSelector m"
    and "i < length m \<Longrightarrow> int (count_list as (fst (m ! i))) = weights (createWeighted m) ! i"
proof -
  let ?c = "createWeighted m"
  note bal = createWeighted_balanced [OF nonneg pos]
  obtain ps ss' where picks: "picks (length is) ?c = (ps, ss')" by (cases "picks (length is) ?c")
  have addrs: "waddrs (newWeightedSelector m) = map fst m"
    using createWeighted_addrs [of m] by (simp add: waddrs_def newWeightedSelector_def)
  have as: "as = map (\<lambda>b. map fst m ! b) ps" and s': "s' = \<lparr>wservers = ss'\<rparr>"
    using select_run_picks [of "newWeightedSelector m" "is" ps ss'] bal picks run addrs
    by (simp_all add: newWeightedSelector_def)
  note final = picks_balanced [OF bal picks]
  note period = picks_period [OF bal createWeighted_currents picks [unfolded len]]
  have zeros: "currents t = replicate (length t) 0" if "\<forall>c \<in> set (currents t). c = 0" for t
    using that replicate_eqI [of "currents t" "length t" 0] by simp
  have "currents ss' = currents ?c"
    using zeros [OF period(1)] zeros [OF createWeighted_currents] final by simp
  moreover have "steady ss'" using final by (simp add: balanced_def)
  ultimately have "ss' = ?c"
    using final by (auto intro: steady_eqI createWeighted_steady)
  then show "s' = newWeightedSelector m" by (simp add: s' newWeightedSelector_def)
  assume i: "i < length m"
  have lm: "length ?c = length m" by (simp add: createWeighted_def)
  have "count_list as (map fst m ! i) = count_list ps i"
    unfolding as using final i by (intro count_list_map_nth dist) (auto simp: lm)
  then show "int (count_list as (fst (m ! i))) = weights ?c ! i"
    using period(2) [of i] i by (simp add: lm)
qed


definition sample_pool :: strmap where
  "sample_pool = [(''tcp@a:1'', ''weight=3''), (''tcp@b:1'', ''weight=1&state=on''), (''tcp@c:1'', ''weight=0'')]"

lemma sample_pool_created: "createWeighted sample_pool =
    [Some \<lparr>Server = ''tcp@a:1'', Weight = 3, CurrentWeight = 0, EffectiveWeight = 3\<rparr>,
     Some \<lparr>Server = ''tcp@b:1'', Weight = 1, CurrentWeight = 0, EffectiveWeight = 1\<rparr>,
     Some \<lparr>Server = ''tcp@c:1'', Weight = 0, CurrentWeight = 0, EffectiveWeight = 0\<rparr>]"
  by code_simp




end
