(* ===== verification/Selector_Ping.thy ===== *)
theory Selector_Ping
  imports Selector_Weighted "HOL-Library.Signed_Division"
begin

text \<open>
  \<open>src/selector/selector_ping.go\<close>: the selector that weighs servers by their round-trip time.
  The network is an argument: \<open>net host\<close> says what the name resolution and the ICMP exchange with
  \<open>host\<close> yield.  The result of building a pool is option-valued, \<open>None\<close> being the panic of
  \<open>server[1]\<close> on an address without \<open>@\<close>.
\<close>

text \<open>\<open>net.SplitHostPort\<close>.\<close>

definition last_index :: "char \<Rightarrow> string \<Rightarrow> nat option" where
  "last_index c s =
     (if c \<in> set s then Some (length s - 1 - length (takeWhile (\<lambda>d. d \<noteq> c) (rev s))) else None)"

definition addrErr :: "string \<Rightarrow> string \<times> string \<times> go_error option" where
  "addrErr why = ('''', '''', Some (NewError why))"

definition SplitHostPort :: "string \<Rightarrow> string \<times> string \<times> go_error option" where
  "SplitHostPort hostport =
     (case last_index (CHR '':'') hostport of
        None \<Rightarrow> addrErr ''missing port in address''
      | Some i \<Rightarrow>
          if hostport ! 0 = CHR ''['' then
            (if CHR '']'' \<notin> set hostport then addrErr ''missing ']' in address''
             else
               let e = length (takeWhile (\<lambda>c. c \<noteq> CHR '']'') hostport)
               in if e + 1 = length hostport then addrErr ''missing port in address''
                  else if e + 1 \<noteq> i then
                    (if hostport ! (e + 1) = CHR '':'' then addrErr ''too many colons in address''
                     else addrErr ''missing port in address'')
                  else if CHR ''['' \<in> set (drop 1 hostport) then addrErr ''unexpected '[' in address''
                  else if CHR '']'' \<in> set (drop (e + 1) hostport) then addrErr ''unexpected ']' in address''
                  else (take (e - 1) (drop 1 hostport), drop (i + 1) hostport, None))
          else
            let host = take i hostport
            in if CHR '':'' \<in> set host then addrErr ''too many colons in address''
               else if CHR ''['' \<in> set hostport then addrErr ''unexpected '[' in address''
               else if CHR '']'' \<in> set hostport then addrErr ''unexpected ']' in address''
               else (host, drop (i + 1) hostport, None))"

text \<open>
  One run of the pinger: the address does not resolve, or the replies received (durations in
  nanoseconds, oldest first) and the error \<open>Run\<close> returns.
\<close>

datatype ping_outcome = Unresolved go_error | Ran "int list" "go_error option"

definition Ping :: "(string \<Rightarrow> ping_outcome) \<Rightarrow> string \<Rightarrow> int \<times> go_error option" where
  "Ping net host =
     (let rtt = 1000
      in case net host of
           Unresolved err \<Rightarrow> (0, Some err)
         | Ran replies err \<Rightarrow> (fold (\<lambda>r rtt. r sdiv 1000000) replies rtt, err))"

definition CalculateWeight :: "int \<Rightarrow> int" where
  "CalculateWeight rtt =
     (if rtt \<ge> 0 \<and> rtt \<le> 10 then 191
      else if rtt > 10 \<and> rtt \<le> 200 then 201 - rtt
      else if rtt > 100 \<and> rtt < 1000 then 1
      else 0)"

fun createICMPWeighted :: "(string \<Rightarrow> ping_outcome) \<Rightarrow> strmap \<Rightarrow> Weighted option list option" where
  "createICMPWeighted net [] = Some []"
| "createICMPWeighted net ((k, _) # servers) =
     (let server = Split_on (CHR ''@'') k
      in if length server \<le> 1 then None
         else
           let (host, _, _) = SplitHostPort (server ! 1);
               (rtt, _) = Ping net host;
               rtt = CalculateWeight rtt;
               w = \<lparr>Server = k, Weight = rtt, CurrentWeight = 0, EffectiveWeight = rtt\<rparr>
           in map_option (\<lambda>ss. Some w # ss) (createICMPWeighted net servers))"

record pingSelector =
  pservers :: "Weighted option list"

definition newPingSelector :: "(string \<Rightarrow> ping_outcome) \<Rightarrow> strmap \<Rightarrow> pingSelector option" where
  "newPingSelector net servers =
     map_option (\<lambda>ss. \<lparr>pservers = ss\<rparr>) (createICMPWeighted net servers)"

definition ping_Select :: "'a request \<Rightarrow> pingSelector \<Rightarrow> string \<times> pingSelector" where
  "ping_Select rq s =
     (let ss = pservers s
      in if length ss = 0 then ('''', s)
         else (case nextWeighted ss of
                 (None, ss) \<Rightarrow> ('''', s\<lparr>pservers := ss\<rparr>)
               | (Some w, ss) \<Rightarrow> (Server (the (ss ! w)), s\<lparr>pservers := ss\<rparr>)))"

definition ping_UpdateServer ::
    "(string \<Rightarrow> ping_outcome) \<Rightarrow> strmap \<Rightarrow> pingSelector \<Rightarrow> pingSelector option" where
  "ping_UpdateServer net servers s =
     map_option (\<lambda>ss. s\<lparr>pservers := ss\<rparr>) (createICMPWeighted net servers)"

section \<open>The pool\<close>

lemma Split_on_one_iff: "length (Split_on c s) \<le> Suc 0 \<longleftrightarrow> c \<notin> set s"
proof (induction s)
  case (Cons d s)
  then show ?case
    using Split_on_nonempty [of c s] by (cases "Split_on c s") auto
qed simp

lemma createICMPWeighted_Some_iff:
  "createICMPWeighted net m \<noteq> None \<longleftrightarrow> (\<forall>k \<in> fst ` set m. CHR ''@'' \<in> set k)"
proof (induction m)
  case (Cons kv m)
  then show ?case by (cases kv) (auto simp: Let_def Split_on_one_iff split: prod.splits)
qed simp

lemma createICMPWeighted_pool:
  "createICMPWeighted net m = Some ss \<Longrightarrow>
     no_nil ss \<and> steady ss \<and> map (\<lambda>x. Server (the x)) ss = map fst m \<and>
     (\<forall>c \<in> set (currents ss). c = 0) \<and> (\<forall>w \<in> set (weights ss). 0 \<le> w \<and> w \<le> 191)"
proof (induction net m arbitrary: ss rule: createICMPWeighted.induct)
  case (1 net)
  then show ?case by (simp add: no_nil_def steady_def currents_def weights_def)
next
  case (2 net k v servers)
  obtain ss1 rtt where "createICMPWeighted net servers = Some ss1"
    "ss = Some \<lparr>Server = k, Weight = CalculateWeight rtt, CurrentWeight = 0,
                 EffectiveWeight = CalculateWeight rtt\<rparr> # ss1"
    using "2.prems" by (auto simp: Let_def split: if_splits prod.splits)
  moreover have "0 \<le> CalculateWeight rtt \<and> CalculateWeight rtt \<le> 191"
    by (simp add: CalculateWeight_def)
  moreover have "no_nil ss1 \<and> steady ss1 \<and> map (\<lambda>x. Server (the x)) ss1 = map fst servers \<and>
     (\<forall>c \<in> set (currents ss1). c = 0) \<and> (\<forall>w \<in> set (weights ss1). 0 \<le> w \<and> w \<le> 191)"
    using "2.IH" [of "Split_on (CHR ''@'') k"] "2.prems" calculation(1)
    by (auto simp: Let_def split: if_splits prod.splits)
  ultimately show ?case
    by (auto simp: no_nil_def steady_def currents_def weights_def)
qed

text \<open>A ping selector runs like the weighted selector on the same pool.\<close>

definition as_weighted :: "pingSelector \<Rightarrow> weightedSelector" where
  "as_weighted s = \<lparr>wservers = pservers s\<rparr>"

definition of_weighted :: "weightedSelector \<Rightarrow> pingSelector" where
  "of_weighted s = \<lparr>pservers = wservers s\<rparr>"

lemma ping_Select_weighted:
  "ping_Select rq s = map_prod id of_weighted (weighted_Select rq (as_weighted s))"
  by (simp add: ping_Select_def weighted_Select_def as_weighted_def of_weighted_def Let_def
      split: prod.splits option.splits)

lemma as_of_weighted [simp]: "as_weighted (of_weighted s) = s"
  by (simp add: as_weighted_def of_weighted_def)

interpretation ping: selector
  "newPingSelector net" "ping_UpdateServer net" ping_Select
  "\<lambda>s. waddrs (as_weighted s)" "\<lambda>s. no_nil (wservers (as_weighted s))"
proof
  fix s s' :: pingSelector and i :: "'a request" and a
  assume inv: "no_nil (wservers (as_weighted s))"
  obtain t where sel: "weighted_Select i (as_weighted s) = (fst (ping_Select i s), t)"
    "snd (ping_Select i s) = of_weighted t"
    by (cases "weighted_Select i (as_weighted s)") (simp add: ping_Select_weighted)
  show "waddrs (as_weighted s') = waddrs (as_weighted s)" "no_nil (wservers (as_weighted s'))"
    if "ping_Select i s = (a, s')"
    using weighted.Select_addrs [OF inv sel(1)] weighted.Select_invar [OF inv sel(1)] sel(2) that
    by simp_all
  show "fst (ping_Select i s) = ''''" if "waddrs (as_weighted s) = []"
    using weighted.Select_empty [OF inv that, of i] sel(1) by simp
  show "fst (ping_Select i s) \<in> set (waddrs (as_weighted s))" if "waddrs (as_weighted s) \<noteq> []"
    using weighted.Select_member [OF inv that, of i] sel(1) by simp
qed (auto simp: newPingSelector_def ping_UpdateServer_def as_weighted_def waddrs_def
    dest: createICMPWeighted_pool)

section \<open>Properties\<close>

text \<open>The weight table.  A faster server never weighs less than a slower one, weights lie
  between 0 and 191, and the four bands are those the comment of \<open>CalculateWeight\<close> lists.\<close>

lemma CalculateWeight_bands:
  assumes "0 \<le> a" and "a \<le> b"
  shows "CalculateWeight b \<le> CalculateWeight a \<and> 0 \<le> CalculateWeight b \<and> CalculateWeight a \<le> 191 \<and>
    CalculateWeight a = (if a \<le> 10 then 191 else if a \<le> 200 then 201 - a else if a < 1000 then 1 else 0)"
  using assms by (simp add: CalculateWeight_def)

text \<open>Building a ping selector panics exactly when some address has no network prefix, that is,
  no \<open>@\<close>.\<close>

lemma newPingSelector_panics_iff:
  "newPingSelector net m = None \<longleftrightarrow> (\<exists>kv. kv \<in> set m \<and> CHR ''@'' \<notin> set (fst kv))"
  using createICMPWeighted_Some_iff [of net m] by (auto simp: newPingSelector_def)

text \<open>A host's weight depends on its outcome only.\<close>

lemma createICMPWeighted_Cons:
  assumes "CHR ''@'' \<notin> set n" and "CHR ''@'' \<notin> set a"
  shows "createICMPWeighted net ((n @ CHR ''@'' # a, v) # m) =
    (let rtt = CalculateWeight (fst (Ping net (fst (SplitHostPort a))))
     in map_option (\<lambda>ss. Some \<lparr>Server = n @ CHR ''@'' # a, Weight = rtt, CurrentWeight = 0, EffectiveWeight = rtt\<rparr> # ss)
          (createICMPWeighted net m))"
proof -
  have "Split_on (CHR ''@'') (n @ CHR ''@'' # a) = [n, a]"
    using assms by (induction n) (auto simp: Split_on_no_sep)
  then show ?thesis by (simp add: Let_def split: prod.splits)
qed

text \<open>A server whose host name does not resolve gets the highest weight there is: the error of
  \<open>Ping\<close> is dropped and the 0 it returns with it counts as a round trip of 0 ms.\<close>

lemma ping_unresolved_preferred:
  assumes "CHR ''@'' \<notin> set n" and "CHR ''@'' \<notin> set a"
    and "net (fst (SplitHostPort a)) = Unresolved e"
    and "createICMPWeighted net ((n @ CHR ''@'' # a, v) # m) = Some ss"
  shows "\<exists>w. ss ! 0 = Some w \<and> Server w = n @ CHR ''@'' # a \<and> Weight w = 191 \<and>
    (\<forall>x \<in> set (weights ss). x \<le> Weight w)"
proof -
  obtain ss1 where ss: "ss = Some \<lparr>Server = n @ CHR ''@'' # a, Weight = 191, CurrentWeight = 0,
      EffectiveWeight = 191\<rparr> # ss1"
    using assms(4) unfolding createICMPWeighted_Cons [OF assms(1,2)]
    by (auto simp: Let_def Ping_def assms(3) CalculateWeight_def)
  then show ?thesis using createICMPWeighted_pool [OF assms(4)] by auto
qed

text \<open>Although the comment says that servers slower than a second are not selected, a pool in
  which no server has a positive weight serves every request from its first server, for ever.\<close>

lemma ping_all_slow:
  assumes "newPingSelector net m = Some s" and "m \<noteq> []"
    and "\<forall>w \<in> set (weights (pservers s)). w = 0"
  shows "select_run ping_Select is s = (replicate (length is) (fst (hd m)), s)"
proof -
  have pool: "createICMPWeighted net m = Some (pservers s)"
    using assms(1) by (auto simp: newPingSelector_def)
  note p = createICMPWeighted_pool [OF pool]
  have ne: "pservers s \<noteq> []" using p assms(2) by auto
  have "nextWeighted (pservers s) = (Some 0, pservers s)"
    using p assms(3) ne by (intro nextWeighted_zero) auto
  moreover have "Server (the (pservers s ! 0)) = fst (hd m)"
    using p ne assms(2) by (metis hd_conv_nth hd_map)
  ultimately have "ping_Select rq s = (fst (hd m), s)" for rq :: "'a request"
    using ne by (simp add: ping_Select_def)
  then show ?thesis by (induction "is") simp_all
qed

end
