(* ===== verification/Float64.thy ===== *)
theory Float64
  imports Complex_Main "HOL-Library.Log_Nat"
begin

text \<open>
  Go's \<open>float64\<close> arithmetic on the values the program computes with: rationals of at least 1, far
  from overflow.  Every operation returns the exact result rounded to 53 significant bits, ties
  to even.  The laws the program's arithmetic rests on are the locale \<open>float_rounding\<close>.
\<close>

definition round_half_even :: "rat \<Rightarrow> int" where
  "round_half_even y =
     (let f = \<lfloor>y\<rfloor>; r = y - of_int f
      in if r < 1 / 2 then f else if r > 1 / 2 then f + 1 else if even f then f else f + 1)"

definition exponent :: "rat \<Rightarrow> nat" where
  "exponent x = floorlog 2 (nat \<lfloor>x\<rfloor>)"

definition unit_in_last_place :: "rat \<Rightarrow> rat" where
  "unit_in_last_place x = 2 ^ exponent x / 2 ^ 53"

definition float64 :: "rat \<Rightarrow> rat" where
  "float64 x = of_int (round_half_even (x / unit_in_last_place x)) * unit_in_last_place x"

locale float_rounding =
  fixes fl :: "rat \<Rightarrow> rat"
  assumes fl_mono: "1 \<le> x \<Longrightarrow> x \<le> y \<Longrightarrow> fl x \<le> fl y"
    and fl_int: "1 \<le> n \<Longrightarrow> n \<le> 2 ^ 53 \<Longrightarrow> fl (of_int n) = of_int n"
    and fl_pow2: "fl (2 ^ k) = 2 ^ k"
begin

lemma fl_ge_int: "1 \<le> n \<Longrightarrow> n \<le> 2 ^ 53 \<Longrightarrow> of_int n \<le> x \<Longrightarrow> of_int n \<le> fl x"
  using fl_mono [of "of_int n" x] fl_int [of n] by simp

lemma fl_le_pow2: "1 \<le> x \<Longrightarrow> x \<le> 2 ^ k \<Longrightarrow> fl x \<le> 2 ^ k"
  using fl_mono [of x "2 ^ k"] fl_pow2 [of k] by simp

text \<open>The product of an integer with a rounded quotient that is at least 1.\<close>

lemma scaled_ge:
  assumes "1 \<le> n" and "n \<le> 2 ^ 53" and "1 \<le> q"
  shows "of_int n \<le> fl (of_int n * fl q)"
proof -
  have "1 \<le> fl q" using fl_ge_int [of 1 q] assms(3) by simp
  then have "of_int n * 1 \<le> of_int n * fl q" using assms(1) by (intro mult_left_mono) simp_all
  then show ?thesis using fl_ge_int [OF assms(1,2), of "of_int n * fl q"] by simp
qed

lemma scaled_le:
  assumes "1 \<le> n" and "n \<le> 2 ^ a" and "1 \<le> q" and "q \<le> 2 ^ b"
  shows "fl (of_int n * fl q) \<le> 2 ^ (a + b)"
proof -
  have q: "1 \<le> fl q" "fl q \<le> 2 ^ b"
    using fl_ge_int [of 1 q] assms(3) fl_le_pow2 [OF assms(3,4)] by simp_all
  have n: "(1 :: rat) \<le> of_int n" "of_int n \<le> (2 :: rat) ^ a"
    using assms(1) assms(2) by simp_all
  have "1 * 1 \<le> of_int n * fl q" using n q by (intro mult_mono) simp_all
  moreover have "of_int n * fl q \<le> 2 ^ a * 2 ^ b" using n q by (intro mult_mono) simp_all
  ultimately show ?thesis using fl_le_pow2 [of "of_int n * fl q" "a + b"] by (simp add: power_add)
qed

end

section \<open>Rounding to 53 bits satisfies the laws\<close>

lemma round_half_even_int [simp]: "round_half_even (of_int n) = n"
  by (simp add: round_half_even_def)

lemma round_half_even_bounds: "\<lfloor>y\<rfloor> \<le> round_half_even y" "round_half_even y \<le> \<lfloor>y\<rfloor> + 1"
  by (auto simp: round_half_even_def Let_def)

lemma round_half_even_mono:
  assumes "x \<le> y"
  shows "round_half_even x \<le> round_half_even y"
proof (cases "\<lfloor>x\<rfloor> = \<lfloor>y\<rfloor>")
  case True
  then show ?thesis using assms by (auto simp: round_half_even_def Let_def)
next
  case False
  then have "\<lfloor>x\<rfloor> + 1 \<le> \<lfloor>y\<rfloor>" using floor_mono [OF assms] by simp
  then show ?thesis using round_half_even_bounds [of x] round_half_even_bounds [of y] by simp
qed

lemma exponent_bounds:
  assumes "1 \<le> x"
  shows "2 ^ (exponent x - 1) \<le> x" and "x < 2 ^ exponent x" and "1 \<le> exponent x"
proof -
  define n where "n = nat \<lfloor>x\<rfloor>"
  have n: "1 \<le> n" using assms by (simp add: n_def le_nat_iff le_floor_iff)
  have fl: "of_nat n \<le> x" "x < of_nat n + 1"
    using assms by (simp_all add: n_def) linarith
  have b: "2 ^ (floorlog 2 n - 1) \<le> n" "n < 2 ^ floorlog 2 n"
    using floorlog_bounds [of n 2] n by simp_all
  then have "(of_nat (2 ^ (floorlog 2 n - 1)) :: rat) \<le> of_nat n" by (simp only: of_nat_le_iff)
  also have "\<dots> \<le> x" by (rule fl(1))
  finally show "2 ^ (exponent x - 1) \<le> x"
    unfolding exponent_def n_def [symmetric] by simp
  have "n + 1 \<le> 2 ^ floorlog 2 n" using b by simp
  then have "(of_nat (n + 1) :: rat) \<le> of_nat (2 ^ floorlog 2 n)" by (simp only: of_nat_le_iff)
  then have "(of_nat n + 1 :: rat) \<le> 2 ^ floorlog 2 n" by simp
  then show "x < 2 ^ exponent x"
    using fl(2) unfolding exponent_def n_def [symmetric] by simp
  show "1 \<le> exponent x"
    using n b(2) unfolding exponent_def n_def [symmetric] by (cases "floorlog 2 n") simp_all
qed

lemma unit_pos: "0 < unit_in_last_place x"
  by (simp add: unit_in_last_place_def)

text \<open>Multiples of the unit are exact.\<close>

lemma float64_exact: "x = of_int m * unit_in_last_place x \<Longrightarrow> float64 x = x"
proof -
  assume eq: "x = of_int m * unit_in_last_place x"
  then have "x / unit_in_last_place x = of_int m"
    using unit_pos [of x] by (metis nonzero_mult_div_cancel_right less_irrefl)
  then show ?thesis using eq by (simp add: float64_def)
qed

lemma exponent_unique:
  assumes "1 \<le> x" and "2 ^ k \<le> x" and "x < 2 ^ Suc k"
  shows "exponent x = Suc k"
proof -
  have "(2 :: rat) ^ k < 2 ^ exponent x" "(2 :: rat) ^ (exponent x - 1) < 2 ^ Suc k"
    using exponent_bounds [OF assms(1)] assms(2,3) by linarith+
  then have "k < exponent x" "exponent x - 1 < Suc k"
    by (simp_all only: power_strict_increasing_iff one_less_numeral_iff semiring_norm)
  then show ?thesis by simp
qed

lemma float64_pow2: "float64 (2 ^ k) = 2 ^ k"
proof (rule float64_exact)
  have "exponent (2 ^ k) = Suc k" by (rule exponent_unique) simp_all
  then show "2 ^ k = of_int (2 ^ 52) * unit_in_last_place (2 ^ k)"
    by (simp add: unit_in_last_place_def)
qed

lemma float64_int:
  assumes "1 \<le> n" and "n \<le> 2 ^ 53"
  shows "float64 (of_int n) = of_int n"
proof (cases "n = 2 ^ 53")
  case True
  then show ?thesis using float64_pow2 [of 53] by simp
next
  case False
  let ?e = "exponent (of_int n)"
  have "(2 :: rat) ^ (?e - 1) \<le> of_int n" using exponent_bounds(1) [of "of_int n"] assms(1) by simp
  also have "\<dots> < of_int (2 ^ 53)" using False assms(2) by (simp only: of_int_less_iff)
  finally have "(2 :: rat) ^ (?e - 1) < 2 ^ 53" by simp
  then have "?e - 1 < 53" by (simp only: power_strict_increasing_iff one_less_numeral_iff semiring_norm)
  then have "(2 :: rat) ^ 53 = 2 ^ (53 - ?e) * 2 ^ ?e" by (simp flip: power_add)
  then show ?thesis
    by (intro float64_exact [of _ "n * 2 ^ (53 - ?e)"]) (simp add: unit_in_last_place_def)
qed

lemma float64_between:
  assumes "1 \<le> x"
  shows "2 ^ (exponent x - 1) \<le> float64 x" and "float64 x \<le> 2 ^ exponent x"
proof -
  let ?u = "unit_in_last_place x" and ?e = "exponent x"
  note e = exponent_bounds [OF assms]
  have lo: "(2 :: rat) ^ (?e - 1) = of_int (2 ^ 52) * ?u"
    using e(3) by (cases ?e) (simp_all add: unit_in_last_place_def)
  have hi: "(2 :: rat) ^ ?e = of_int (2 ^ 53) * ?u"
    by (simp add: unit_in_last_place_def)
  have "of_int (2 ^ 52) \<le> x / ?u" "x / ?u \<le> of_int (2 ^ 53)"
    using e(1,2) unit_pos [of x] unfolding lo hi by (simp_all add: pos_le_divide_eq pos_divide_le_eq)
  then have "2 ^ 52 \<le> round_half_even (x / ?u)" "round_half_even (x / ?u) \<le> 2 ^ 53"
    by (auto dest: round_half_even_mono simp only: round_half_even_int)
  then have "(of_int (2 ^ 52) :: rat) \<le> of_int (round_half_even (x / ?u))"
    "(of_int (round_half_even (x / ?u)) :: rat) \<le> of_int (2 ^ 53)"
    by (simp_all only: of_int_le_iff)
  then show "2 ^ (?e - 1) \<le> float64 x" "float64 x \<le> 2 ^ ?e"
    unfolding float64_def lo hi using unit_pos [of x]
    by (simp_all only: mult_le_cancel_right_pos)
qed

lemma float64_mono:
  assumes "1 \<le> x" and "x \<le> y"
  shows "float64 x \<le> float64 y"
proof -
  have y: "1 \<le> y" using assms by simp
  have "(2 :: rat) ^ (exponent x - 1) < 2 ^ exponent y"
    using exponent_bounds [OF assms(1)] exponent_bounds [OF y] assms(2) by linarith
  then have "exponent x - 1 < exponent y"
    by (simp only: power_strict_increasing_iff one_less_numeral_iff semiring_norm)
  then consider "exponent x = exponent y" | "exponent x \<le> exponent y - 1"
    using exponent_bounds(3) [OF y] by linarith
  then show ?thesis
  proof cases
    case 1
    then have u: "unit_in_last_place x = unit_in_last_place y" by (simp add: unit_in_last_place_def)
    have "round_half_even (x / unit_in_last_place y) \<le> round_half_even (y / unit_in_last_place y)"
      using assms(2) unit_pos [of y] by (intro round_half_even_mono) (simp add: divide_right_mono)
    then show ?thesis unfolding float64_def u using unit_pos [of y] by simp
  next
    case 2
    then have "(2 :: rat) ^ exponent x \<le> 2 ^ (exponent y - 1)" by (simp add: power_increasing)
    then show ?thesis using float64_between(2) [OF assms(1)] float64_between(1) [OF y] by linarith
  qed
qed

interpretation rn53: float_rounding float64
  by unfold_locales (fact float64_mono float64_int float64_pow2)+

end
