(* ===== verification/Selector_Hash.thy ===== *)
theory Selector_Hash
  imports Selector_Interface Float64
begin

text \<open>
  \<open>src/selector/hash.go\<close> and \<open>selector_hash.go\<close>: jump consistent hashing of a request to a
  server.  The \<open>float64\<close> arithmetic is that of theory \<open>Float64\<close>; \<open>fmt.Sprintf("%v", args)\<close>
  is an argument \<open>fmt\<close>, since it depends on the user's argument type.
\<close>

unbundle bit_operations_syntax

section \<open>Hash\<close>

definition next_key :: "u64 \<Rightarrow> u64" where
  "next_key key = key * 2862933555777941757 + 1"

text \<open>
  The new value of \<open>j\<close>.  The shift keeps 31 bits, so the divisor lies between 1 and \<open>2 ^ 31\<close> and
  the operands of every \<open>float64\<close> operation are at least 1.  The \<open>int64\<close> variables \<open>b\<close> and \<open>j\<close>
  are never negative and, by \<open>jump_int64\<close>, never leave their range.
\<close>

definition jump :: "nat \<Rightarrow> u64 \<Rightarrow> nat" where
  "jump b key =
     nat \<lfloor>float64 (of_int (int b + 1) * float64 (2 ^ 31 / of_int (uint (drop_bit 33 key) + 1)))\<rfloor>"

lemma key_shift: "0 \<le> uint (drop_bit 33 (key :: u64))" "uint (drop_bit 33 (key :: u64)) < 2 ^ 31"
proof -
  have "drop_bit 33 (uint key) < 2 ^ 31"
    using uint_bounded [of key] by (simp add: drop_bit_eq_div div_less_iff_less_mult)
  moreover have "take_bit 64 (uint key) = uint key" by (rule take_bit_int_eq_self) (use uint_bounded [of key] in simp_all)
  ultimately show "uint (drop_bit 33 key) < 2 ^ 31"
    unfolding unsigned_drop_bit_eq by simp
qed simp

lemma quotient_bounds:
  "(1 :: rat) \<le> 2 ^ 31 / of_int (uint (drop_bit 33 (key :: u64)) + 1)"
  "2 ^ 31 / of_int (uint (drop_bit 33 (key :: u64)) + 1) \<le> (2 :: rat) ^ 31"
proof -
  let ?d = "uint (drop_bit 33 key) + 1"
  have "1 \<le> ?d" "?d \<le> 2 ^ 31" using key_shift [of key] by linarith+
  then have "(1 :: rat) \<le> of_int ?d" "(of_int ?d :: rat) \<le> of_int (2 ^ 31)"
    by (simp_all only: of_int_le_iff of_int_1_le_iff)
  then show "(1 :: rat) \<le> 2 ^ 31 / of_int ?d" "2 ^ 31 / of_int ?d \<le> (2 :: rat) ^ 31"
    by (simp_all add: pos_le_divide_eq pos_divide_le_eq)
qed

lemma jump_gt:
  assumes "b < 2 ^ 31"
  shows "b < jump b key"
proof -
  have "int b + 1 \<le> 2 ^ 53" using assms by simp
  then have "of_int (int b + 1) \<le>
      float64 (of_int (int b + 1) * float64 (2 ^ 31 / of_int (uint (drop_bit 33 key) + 1)))"
    by (intro rn53.scaled_ge quotient_bounds) simp_all
  then have "int b + 1 \<le> int (jump b key)"
    unfolding jump_def by (simp only: le_floor_iff [symmetric])
  then show ?thesis by simp
qed

lemma jump_int64:
  assumes "b < 2 ^ 31"
  shows "jump b key < 2 ^ 63"
proof -
  have "float64 (of_int (int b + 1) * float64 (2 ^ 31 / of_int (uint (drop_bit 33 key) + 1))) \<le> 2 ^ (31 + 31)"
    using assms by (intro rn53.scaled_le quotient_bounds) simp_all
  also have "\<dots> < of_int (2 ^ 63)" by simp
  finally have less: "\<lfloor>float64 (of_int (int b + 1) * float64 (2 ^ 31 / of_int (uint (drop_bit 33 key) + 1)))\<rfloor> < 2 ^ 63"
    by (simp only: floor_less_iff)
  have "nat k < 2 ^ 63" if "k < 2 ^ 63" for k :: int using that by (cases "0 \<le> k") (simp_all add: nat_less_iff)
  then show ?thesis unfolding jump_def using less .
qed

text \<open>\<open>buckets\<close> is an \<open>int32\<close>.  This is what makes the loop end: \<open>b + 1\<close> is a \<open>float64\<close> exactly.\<close>

lemma int32_less: "sint (w :: 32 word) < 2 ^ 31"
  using sint_less [of w] by simp

function Hash_loop :: "nat \<Rightarrow> nat \<Rightarrow> u64 \<Rightarrow> 32 word \<Rightarrow> nat" where
  "Hash_loop b j key buckets =
     (if int j < sint buckets then
        let b = j; key = next_key key; j = jump b key in Hash_loop b j key buckets
      else b)"
  by pat_completeness auto
termination
proof (relation "measure (\<lambda>(b, j, key, buckets). nat (sint buckets - int j))", simp)
  fix b j x xb :: nat and buckets :: "32 word" and key xc :: u64
  assume "int j < sint buckets" "x = j" "xc = next_key key" "xb = jump x xc"
  then have "j < xb" using jump_gt [of j "next_key key"] int32_less [of buckets] by simp
  then show "((x, xb, xc, buckets), b, j, key, buckets)
      \<in> measure (\<lambda>(b, j, key, buckets). nat (sint buckets - int j))"
    using \<open>int j < sint buckets\<close> by simp
qed

declare Hash_loop.simps [simp del]

definition Hash :: "u64 \<Rightarrow> 32 word \<Rightarrow> 32 word" where
  "Hash key buckets =
     (let buckets = (if sint buckets \<le> 0 then 1 else buckets) in of_nat (Hash_loop 0 0 key buckets))"

lemma Hash_loop_less:
  assumes "0 < sint buckets" and "j = 0 \<or> int b < sint buckets"
  shows "int (Hash_loop b j key buckets) < sint buckets"
  using assms
proof (induction b j key buckets rule: Hash_loop.induct)
  case (1 b j key buckets)
  then show ?case
    by (cases "int j < sint buckets") (subst Hash_loop.simps, auto simp: Let_def)+
qed

text \<open>One bucket more: the loop stops where it did, or in the new bucket.\<close>

lemma Hash_loop_grow:
  assumes "sint m = sint n + 1" and "0 < sint n"
  shows "Hash_loop b j key m = Hash_loop b j key n \<or> int (Hash_loop b j key m) = sint n"
  using assms
proof (induction b j key n rule: Hash_loop.induct)
  case (1 b j key n)
  let ?k = "next_key key"
  show ?case
  proof (cases "int j < sint n")
    case True
    then have "Hash_loop b j key n = Hash_loop j (jump j ?k) ?k n"
      "Hash_loop b j key m = Hash_loop j (jump j ?k) ?k m"
      using "1.prems" by (subst Hash_loop.simps, simp add: Let_def)+
    then show ?thesis using "1.IH" [OF True refl refl refl] "1.prems" by simp
  next
    case False
    have stop: "Hash_loop b j key n = b" using False by (subst Hash_loop.simps) simp
    show ?thesis
    proof (cases "int j < sint m")
      case True
      then have j: "int j = sint n" using False "1.prems" by simp
      then have "j < 2 ^ 31" using int32_less [of n] by simp
      then have "\<not> int (jump j ?k) < sint m" using jump_gt [of j ?k] j "1.prems" by simp
      then have "Hash_loop j (jump j ?k) ?k m = j" by (subst Hash_loop.simps) simp
      then have "Hash_loop b j key m = j" using True by (subst Hash_loop.simps) (simp add: Let_def)
      then show ?thesis using j by simp
    next
      case False
      then have "Hash_loop b j key m = b" by (subst Hash_loop.simps) simp
      then show ?thesis using stop by simp
    qed
  qed
qed

lemma sint_of_nat_int32: "int r < 2 ^ 31 \<Longrightarrow> sint (of_nat r :: 32 word) = int r"
  by (simp add: sint_uint signed_take_bit_int_eq_self uint_of_nat_u32)

lemma Hash_sint: "0 < sint n \<Longrightarrow> sint (Hash key n) = int (Hash_loop 0 0 key n)"
  using Hash_loop_less [of n 0 0 key] int32_less [of n]
  by (simp add: Hash_def sint_of_nat_int32)

section \<open>Hash of a request\<close>

definition HashString :: "string \<Rightarrow> u64" where
  "HashString s =
     foldl (\<lambda>h c. (h XOR of_nat (of_char c)) * 1099511628211) 14695981039346656037 s"

text \<open>The values \<open>JumpConsistentHash\<close> is called with: strings and the user's argument.\<close>

datatype 'a hash_option = HStr string | HArg 'a

definition toString :: "('a \<Rightarrow> string) \<Rightarrow> 'a hash_option \<Rightarrow> string" where
  "toString fmt opt = (case opt of HStr s \<Rightarrow> s | HArg a \<Rightarrow> fmt a)"

definition JumpConsistentHash :: "('a \<Rightarrow> string) \<Rightarrow> nat \<Rightarrow> 'a hash_option list \<Rightarrow> int" where
  "JumpConsistentHash fmt n options =
     (let keyString = foldl (\<lambda>keyString opt. keyString @ ''/'' @ toString fmt opt) '''' options;
          key = HashString keyString
      in sint (Hash key (of_nat n)))"

section \<open>The selector\<close>

record hashSelector =
  hservers :: "string list"

definition newHashSelector :: "strmap \<Rightarrow> hashSelector" where
  "newHashSelector servers = \<lparr>hservers = map fst servers\<rparr>"

definition hash_Select :: "('a \<Rightarrow> string) \<Rightarrow> 'a request \<Rightarrow> hashSelector \<Rightarrow> string \<times> hashSelector" where
  "hash_Select fmt rq s =
     (let ss = hservers s
      in if length ss = 0 then ('''', s)
         else
           let i = JumpConsistentHash fmt (length ss) [HStr (rq_path rq), HStr (rq_method rq), HArg (rq_args rq)]
           in (ss ! nat i, s))"

definition hash_UpdateServer :: "strmap \<Rightarrow> hashSelector \<Rightarrow> hashSelector" where
  "hash_UpdateServer servers s = s\<lparr>hservers := map fst servers\<rparr>"

lemma Hash_index:
  assumes "0 < n"
  shows "nat (sint (Hash key (of_nat n))) < n"
proof (cases "sint (of_nat n :: 32 word) \<le> 0")
  case True
  have "int (Hash_loop 0 0 key 1) < 1" using Hash_loop_less [of 1 0 0 key] by simp
  then show ?thesis using True assms by (simp add: Hash_def)
next
  case False
  have "- 2147483648 \<le> uint (of_nat n :: 32 word)"
    by (rule order_trans [OF _ unsigned_greater_eq]) simp
  then have "sint (of_nat n :: 32 word) \<le> uint (of_nat n :: 32 word)"
    by (simp add: sint_uint signed_take_bit_int_less_eq_self_iff)
  also have "\<dots> \<le> int n" by (simp add: unsigned_of_nat take_bit_nat_less_eq_self)
  finally show ?thesis
    using False Hash_sint [of "of_nat n" key] Hash_loop_less [of "of_nat n" 0 0 key] by simp
qed

interpretation hash: selector
  "\<lambda>m. Some (newHashSelector m)" "\<lambda>m s. Some (hash_UpdateServer m s)"
  "hash_Select fmt" hservers "\<lambda>s. True"
  by unfold_locales
    (auto simp: newHashSelector_def hash_UpdateServer_def hash_Select_def JumpConsistentHash_def Let_def
      intro!: nth_mem Hash_index split: if_splits)

lemma sint_Suc:
  assumes "0 < sint n" and "sint n < 2 ^ 31 - 1"
  shows "sint (n + 1 :: 32 word) = sint n + 1"
proof -
  have n: "n = of_nat (nat (sint n))" using assms(1) by simp
  have "n + 1 = of_nat (nat (sint n) + 1)" by (subst n) simp
  then have "sint (n + 1) = sint (of_nat (nat (sint n) + 1) :: 32 word)" by (simp only:)
  also have "\<dots> = sint n + 1" using assms by (subst sint_of_nat_int32) simp_all
  finally show ?thesis .
qed

lemma Hash_grow:
  assumes "0 < sint n" and "sint n < 2 ^ 31 - 1"
  shows "Hash key (n + 1) = Hash key n \<or> Hash key (n + 1) = n"
proof -
  note m = sint_Suc [OF assms]
  have "sint (Hash key (n + 1)) = sint (Hash key n) \<or> sint (Hash key (n + 1)) = sint n"
    using Hash_loop_grow [OF m assms(1), of 0 0 key] Hash_sint [of "n + 1" key] Hash_sint [of n key] assms(1) m
    by simp
  then show ?thesis by (metis signed_word_eqI)
qed

text \<open>C27: \<open>Hash\<close> returns for every key and every bucket number, and its result is a bucket: at
  least 0 and below the number of buckets, numbers below 1 counting as 1.\<close>

theorem Hash_range: "0 \<le> sint (Hash key n) \<and> sint (Hash key n) < max 1 (sint n)"
proof (cases "sint n \<le> 0")
  case True
  have "sint (1 :: 32 word) = 1" by simp
  then have "Hash_loop 0 0 key 1 = 0" using Hash_loop_less [of 1 0 0 key] by simp
  then show ?thesis using True by (simp add: Hash_def)
next
  case False
  then show ?thesis using Hash_sint [of n key] Hash_loop_less [of n 0 0 key] by simp
qed

text \<open>C11: Jump consistency.  When one bucket is added, every key stays in its bucket or moves to the
  new one; no key moves between old buckets.\<close>

theorem Hash_consistent:
  assumes "0 < sint n" and "sint n < 2 ^ 31 - 1"
  shows "Hash key (n + 1) = Hash key n \<or> Hash key (n + 1) = n"
  by (rule Hash_grow [OF assms])

theorem Hash_consistent_witness:
  "Hash 12345 (4 + 1) = Hash 12345 4 \<or> Hash 12345 (4 + 1) = 4"
  using Hash_consistent [of 4 12345] by simp

text \<open>Adding a server at the end of the list of a hash selector moves requests to the new server
  only: every request goes where it went before or to the new server.\<close>

lemma hash_Select_grow:
  assumes "m \<noteq> []" and "length m < 2 ^ 31 - 1"
  shows "fst (hash_Select fmt rq (newHashSelector (m @ [(k, v)]))) = fst (hash_Select fmt rq (newHashSelector m)) \<or>
    fst (hash_Select fmt rq (newHashSelector (m @ [(k, v)]))) = k"
proof -
  let ?n = "length m" and ?o = "[HStr (rq_path rq), HStr (rq_method rq), HArg (rq_args rq)]"
  let ?key = "HashString (foldl (\<lambda>keyString opt. keyString @ ''/'' @ toString fmt opt) '''' ?o)"
  have n: "sint (of_nat ?n :: 32 word) = int ?n" using assms(2) by (intro sint_of_nat_int32) simp
  have idx: "nat (sint (Hash ?key (of_nat ?n))) < ?n" by (rule Hash_index) (use assms(1) in simp)
  have "Hash ?key (of_nat ?n + 1) = Hash ?key (of_nat ?n) \<or> Hash ?key (of_nat ?n + 1) = of_nat ?n"
    using Hash_grow [of "of_nat ?n" ?key] n assms by simp
  moreover have "fst (hash_Select fmt rq (newHashSelector m)) =
      fst (m ! nat (sint (Hash ?key (of_nat ?n))))"
    using assms(1) idx by (simp add: hash_Select_def newHashSelector_def JumpConsistentHash_def Let_def)
  moreover have "fst (hash_Select fmt rq (newHashSelector (m @ [(k, v)]))) =
      (map fst m @ [k]) ! nat (sint (Hash ?key (of_nat ?n + 1)))"
    by (simp add: hash_Select_def newHashSelector_def JumpConsistentHash_def Let_def add.commute)
  ultimately show ?thesis using idx n by (auto simp: nth_append)
qed

text \<open>The hash selector does not hash to servers but to positions in a slice whose order is that
  of a Go map iteration: two clients with the same two servers in opposite orders send every
  request to different servers.\<close>

lemma hash_Select_order:
  assumes "a \<noteq> b"
  shows "fst (hash_Select fmt rq (newHashSelector [(a, v), (b, w)])) \<noteq>
    fst (hash_Select fmt rq (newHashSelector [(b, w), (a, v)]))"
proof -
  have two: "[a, b] ! i \<noteq> [b, a] ! i" if "i < 2" for i
    using assms that by (auto simp: less_Suc_eq numeral_2_eq_2)
  show ?thesis
    using two [OF Hash_index [of 2]]
    by (simp add: hash_Select_def newHashSelector_def JumpConsistentHash_def Let_def)
qed

end
