(* ===== verification/Selector_New.thy ===== *)
theory Selector_New
  imports Selector_Simple Selector_Ping Selector_Hash
begin

text \<open>
  \<open>src/selector/selector.go\<close> and the selection modes of \<open>src/core/mode.go\<close>: the factory and the
  interface value it returns.  A \<open>Selector\<close> value is one of the package's types; a method call
  on it goes to the method of that type.
\<close>

type_synonym SelectMode = int

definition Mode_Random :: SelectMode where "Mode_Random = 0"
definition Mode_RoundRobin :: SelectMode where "Mode_RoundRobin = 1"
definition Mode_Weighted :: SelectMode where "Mode_Weighted = 2"
definition Mode_Hash :: SelectMode where "Mode_Hash = 3"
definition Mode_Ping :: SelectMode where "Mode_Ping = 4"
definition Mode_Closest :: SelectMode where "Mode_Closest = 5"

lemmas mode_defs = Mode_Random_def Mode_RoundRobin_def Mode_Weighted_def Mode_Hash_def
  Mode_Ping_def Mode_Closest_def

datatype Selector =
    Sel_random randomSelector
  | Sel_roundRobin roundRobinSelector
  | Sel_weighted weightedSelector
  | Sel_hash hashSelector
  | Sel_ping pingSelector

definition NewSelector :: "(string \<Rightarrow> ping_outcome) \<Rightarrow> SelectMode \<Rightarrow> strmap \<Rightarrow> Selector option" where
  "NewSelector net selectMode servers =
     (if selectMode = Mode_Random then Some (Sel_random (newRandomSelector servers))
      else if selectMode = Mode_RoundRobin then Some (Sel_roundRobin (newRoundRobinSelector servers))
      else if selectMode = Mode_Weighted then Some (Sel_weighted (newWeightedSelector servers))
      else if selectMode = Mode_Hash then Some (Sel_hash (newHashSelector servers))
      else if selectMode = Mode_Ping then map_option Sel_ping (newPingSelector net servers)
      else Some (Sel_random (newRandomSelector servers)))"

definition Select :: "('a \<Rightarrow> string) \<Rightarrow> 'a request \<Rightarrow> Selector \<Rightarrow> string \<times> Selector" where
  "Select fmt rq sel =
     (case sel of
        Sel_random s \<Rightarrow> map_prod id Sel_random (random_Select rq s)
      | Sel_roundRobin s \<Rightarrow> map_prod id Sel_roundRobin (roundRobin_Select rq s)
      | Sel_weighted s \<Rightarrow> map_prod id Sel_weighted (weighted_Select rq s)
      | Sel_hash s \<Rightarrow> map_prod id Sel_hash (hash_Select fmt rq s)
      | Sel_ping s \<Rightarrow> map_prod id Sel_ping (ping_Select rq s))"

definition UpdateServer :: "(string \<Rightarrow> ping_outcome) \<Rightarrow> strmap \<Rightarrow> Selector \<Rightarrow> Selector option" where
  "UpdateServer net servers sel =
     (case sel of
        Sel_random s \<Rightarrow> Some (Sel_random (random_UpdateServer servers s))
      | Sel_roundRobin s \<Rightarrow> Some (Sel_roundRobin (roundRobin_UpdateServer servers s))
      | Sel_weighted s \<Rightarrow> Some (Sel_weighted (weighted_UpdateServer servers s))
      | Sel_hash s \<Rightarrow> Some (Sel_hash (hash_UpdateServer servers s))
      | Sel_ping s \<Rightarrow> map_option Sel_ping (ping_UpdateServer net servers s))"

section \<open>Every selector satisfies the contract\<close>

definition sel_addrs :: "Selector \<Rightarrow> string list" where
  "sel_addrs sel =
     (case sel of
        Sel_random s \<Rightarrow> rservers s
      | Sel_roundRobin s \<Rightarrow> rrservers s
      | Sel_weighted s \<Rightarrow> waddrs s
      | Sel_hash s \<Rightarrow> hservers s
      | Sel_ping s \<Rightarrow> waddrs (as_weighted s))"

definition sel_invar :: "Selector \<Rightarrow> bool" where
  "sel_invar sel =
     (case sel of
        Sel_weighted s \<Rightarrow> no_nil (wservers s)
      | Sel_ping s \<Rightarrow> no_nil (wservers (as_weighted s))
      | _ \<Rightarrow> True)"

lemma map_prod_id_eq: "map_prod id f p = (a, y) \<longleftrightarrow> (\<exists>x. p = (a, x) \<and> y = f x)"
  by (cases p) auto

lemma Select_cases:
  assumes "sel_invar sel" and "Select fmt rq sel = (a, sel')"
  shows "sel_addrs sel' = sel_addrs sel \<and> sel_invar sel' \<and>
    a \<in> (if sel_addrs sel = [] then {''''} else set (sel_addrs sel))"
proof (cases sel)
  case (Sel_random s)
  then obtain s' where "random_Select rq s = (a, s')" "sel' = Sel_random s'"
    using assms(2) by (auto simp: Select_def map_prod_id_eq)
  then show ?thesis
    using assms(1) Sel_random random.Select_step [OF TrueI, of rq s a s'] by (simp add: sel_addrs_def sel_invar_def split: if_splits)
next
  case (Sel_roundRobin s)
  then obtain s' where "roundRobin_Select rq s = (a, s')" "sel' = Sel_roundRobin s'"
    using assms(2) by (auto simp: Select_def map_prod_id_eq)
  then show ?thesis
    using assms(1) Sel_roundRobin roundRobin.Select_step [OF TrueI, of rq s a s'] by (simp add: sel_addrs_def sel_invar_def split: if_splits)
next
  case (Sel_weighted s)
  then obtain s' where "weighted_Select rq s = (a, s')" "sel' = Sel_weighted s'"
    using assms(2) by (auto simp: Select_def map_prod_id_eq)
  then show ?thesis
    using assms(1) Sel_weighted weighted.Select_step [of s rq a s'] by (simp add: sel_addrs_def sel_invar_def split: if_splits)
next
  case (Sel_hash s)
  then obtain s' where "hash_Select fmt rq s = (a, s')" "sel' = Sel_hash s'"
    using assms(2) by (auto simp: Select_def map_prod_id_eq)
  then show ?thesis
    using assms(1) Sel_hash hash.Select_step [OF TrueI, of fmt rq s a s'] by (simp add: sel_addrs_def sel_invar_def split: if_splits)
next
  case (Sel_ping s)
  then obtain s' where "ping_Select rq s = (a, s')" "sel' = Sel_ping s'"
    using assms(2) by (auto simp: Select_def map_prod_id_eq)
  then show ?thesis
    using assms(1) Sel_ping ping.Select_step [of s rq a s'] by (simp add: sel_addrs_def sel_invar_def split: if_splits)
qed

lemma NewSelector_addrs:
  "NewSelector net mode m = Some sel \<Longrightarrow> sel_addrs sel = map fst m \<and> sel_invar sel"
  using weighted.New_addrs [of m] weighted.New_invar [of m] ping.New_addrs [of net m] ping.New_invar [of net m]
  by (auto simp: NewSelector_def sel_addrs_def sel_invar_def newRandomSelector_def
      newRoundRobinSelector_def newHashSelector_def split: if_splits)

lemma UpdateServer_addrs:
  "UpdateServer net m sel = Some sel' \<Longrightarrow> sel_addrs sel' = map fst m \<and> (sel_invar sel \<longrightarrow> sel_invar sel')"
  using weighted.Update_addrs [of m] weighted.Update_invar [of _ m] ping.Update_addrs [of net m]
    ping.Update_invar [of _ net m]
  by (auto simp: UpdateServer_def sel_addrs_def sel_invar_def random_UpdateServer_def
      roundRobin_UpdateServer_def hash_UpdateServer_def split: Selector.splits)

interpretation any: selector "NewSelector net mode" "UpdateServer net" "Select fmt" sel_addrs sel_invar
proof
  fix s :: Selector and i :: "'a request"
  assume "sel_invar s"
  moreover obtain a s' where "Select fmt i s = (a, s')" by (cases "Select fmt i s")
  ultimately have "fst (Select fmt i s) \<in> (if sel_addrs s = [] then {''''} else set (sel_addrs s))"
    using Select_cases [of s fmt i a s'] by simp
  then show "sel_addrs s = [] \<Longrightarrow> fst (Select fmt i s) = ''''"
    "sel_addrs s \<noteq> [] \<Longrightarrow> fst (Select fmt i s) \<in> set (sel_addrs s)" by simp_all
qed (auto dest: Select_cases NewSelector_addrs UpdateServer_addrs)

text \<open>C18: Every selector the factory can build only ever returns servers it was built with, however
  many calls are made and whatever the requests are; it never invents an address and returns the
  empty one only when it has no servers.\<close>

theorem selectors_return_members:
  assumes "NewSelector net mode m = Some sel" and "m \<noteq> []"
  shows "set (fst (select_run (Select fmt) is sel)) \<subseteq> fst ` set m \<and>
    length (fst (select_run (Select fmt) is sel)) = length is"
proof -
  obtain as sel' where "select_run (Select fmt) is sel = (as, sel')"
    by (cases "select_run (Select fmt) is sel")
  then show ?thesis using any.fresh_run [OF assms, of fmt "is" as sel'] by simp
qed

theorem selectors_return_members_witness:
  "set (fst (select_run (Select id) (replicate 3 \<lparr>rq_path = ''s'', rq_method = ''m'', rq_args = ''x'', rq_random = 7\<rparr>)
     (Sel_weighted (newWeightedSelector sample_pool)))) \<subseteq> fst ` set sample_pool"
proof -
  have "NewSelector (\<lambda>h. Ran [] None) Mode_Weighted sample_pool = Some (Sel_weighted (newWeightedSelector sample_pool))"
    by (simp only: NewSelector_def mode_defs) simp
  moreover have "sample_pool \<noteq> []" by (simp add: sample_pool_def)
  ultimately show ?thesis by (rule selectors_return_members [THEN conjunct1])
qed

text \<open>The mode \<open>Closest\<close>, and every number that names no mode, yields a random selector: the
  selector by distance is never created.\<close>

lemma NewSelector_closest_random:
  assumes "mode \<notin> {Mode_Random, Mode_RoundRobin, Mode_Weighted, Mode_Hash, Mode_Ping}"
  shows "NewSelector net mode m = NewSelector net Mode_Random m"
  using assms by (auto simp: NewSelector_def)

end
