(* ===== verification/Selector_Geo.thy ===== *)
theory Selector_Geo
  imports Selector_Interface
begin

text \<open>
  \<open>src/selector/selector_geo.go\<close>: the selector by distance.  The type \<open>'f\<close> of floating-point
  numbers and the operations of \<open>math\<close> and \<open>strconv\<close> on it are an argument \<open>fo\<close>: what is shown
  here does not depend on them.  A slice of pointers is a list of options, \<open>None\<close> for nil; a result
  \<open>None\<close> of \<open>Select\<close> is the panic of reading a field through nil.
\<close>

record 'f float_ops =
  f_int :: "int \<Rightarrow> 'f"
  f_Pi :: 'f
  f_MaxFloat64 :: 'f
  f_add :: "'f \<Rightarrow> 'f \<Rightarrow> 'f"
  f_sub :: "'f \<Rightarrow> 'f \<Rightarrow> 'f"
  f_mul :: "'f \<Rightarrow> 'f \<Rightarrow> 'f"
  f_div :: "'f \<Rightarrow> 'f \<Rightarrow> 'f"
  f_Sin :: "'f \<Rightarrow> 'f"
  f_Cos :: "'f \<Rightarrow> 'f"
  f_Asin :: "'f \<Rightarrow> 'f"
  f_Sqrt :: "'f \<Rightarrow> 'f"
  f_Pow :: "'f \<Rightarrow> 'f \<Rightarrow> 'f"
  f_less :: "'f \<Rightarrow> 'f \<Rightarrow> bool"
  f_equal :: "'f \<Rightarrow> 'f \<Rightarrow> bool"
  f_Parse :: "string \<Rightarrow> go_error + 'f"

record 'f geoServer =
  gs_Server :: string
  gs_Latitude :: 'f
  gs_Longitude :: 'f

record 'f geoSelector =
  gservers :: "'f geoServer option list"
  g_Latitude :: 'f
  g_Longitude :: 'f

definition hsin :: "'f float_ops \<Rightarrow> 'f \<Rightarrow> 'f" where
  "hsin fo theta = f_Pow fo (f_Sin fo (f_div fo theta (f_int fo 2))) (f_int fo 2)"

definition getDistanceFrom :: "'f float_ops \<Rightarrow> 'f \<Rightarrow> 'f \<Rightarrow> 'f \<Rightarrow> 'f \<Rightarrow> 'f" where
  "getDistanceFrom fo lat1 lon1 lat2 lon2 =
     (let rad = (\<lambda>x. f_div fo (f_mul fo x (f_Pi fo)) (f_int fo 180));
          la1 = rad lat1; lo1 = rad lon1; la2 = rad lat2; lo2 = rad lon2;
          r = f_int fo 6378100;
          h = f_add fo (hsin fo (f_sub fo la2 la1))
                (f_mul fo (f_mul fo (f_Cos fo la1) (f_Cos fo la2)) (hsin fo (f_sub fo lo2 lo1)))
      in f_mul fo (f_mul fo (f_int fo 2) r) (f_Asin fo (f_Sqrt fo h)))"

text \<open>
  \<open>make([]*geoServer, len(servers))\<close> creates that many nil pointers; the loop appends after them.
\<close>

definition createGeoServer :: "'f float_ops \<Rightarrow> strmap \<Rightarrow> 'f geoServer option list" where
  "createGeoServer fo servers =
     foldl (\<lambda>geoServers (s, metadata).
       (case ParseQuery metadata of
          (v, None) \<Rightarrow>
            (let latStr = values_Get v ''latitude''; lonStr = values_Get v ''longitude''
             in if latStr = '''' \<or> lonStr = '''' then geoServers
                else
                  (case f_Parse fo latStr of
                     Inl _ \<Rightarrow> geoServers
                   | Inr lat \<Rightarrow>
                       (case f_Parse fo lonStr of
                          Inl _ \<Rightarrow> geoServers
                        | Inr lon \<Rightarrow>
                            geoServers @
                              [Some \<lparr>gs_Server = s, gs_Latitude = lat, gs_Longitude = lon\<rparr>])))
        | (v, Some _) \<Rightarrow> geoServers))
       (replicate (length servers) None) servers"

definition newGeoSelector :: "'f float_ops \<Rightarrow> strmap \<Rightarrow> 'f \<Rightarrow> 'f \<Rightarrow> 'f geoSelector" where
  "newGeoSelector fo servers latitude longitude =
     \<lparr>gservers = createGeoServer fo servers, g_Latitude = latitude, g_Longitude = longitude\<rparr>"

fun geo_loop ::
    "'f float_ops \<Rightarrow> 'f geoSelector \<Rightarrow> 'f geoServer option list \<Rightarrow> string list \<Rightarrow> 'f \<Rightarrow> string list option"
where
  "geo_loop fo s [] server mn = Some server"
| "geo_loop fo s (None # gss) server mn = None"
| "geo_loop fo s (Some gs # gss) server mn =
     (let d = getDistanceFrom fo (g_Latitude s) (g_Longitude s) (gs_Latitude gs) (gs_Longitude gs)
      in if f_less fo d mn then geo_loop fo s gss [gs_Server gs] d
         else if f_equal fo d mn then geo_loop fo s gss (server @ [gs_Server gs]) mn
         else geo_loop fo s gss server mn)"

text \<open>\<open>intn n\<close> is the number \<open>s.r.Intn(n)\<close> returns; \<open>Intn\<close> panics on 0.\<close>

definition geo_Select :: "'f float_ops \<Rightarrow> (nat \<Rightarrow> nat) \<Rightarrow> 'f geoSelector \<Rightarrow> string option" where
  "geo_Select fo intn s =
     (if length (gservers s) = 0 then Some ''''
      else
        (case geo_loop fo s (gservers s) [] (f_MaxFloat64 fo) of
           None \<Rightarrow> None
         | Some server \<Rightarrow>
             if length server = 1 then Some (server ! 0)
             else if length server = 0 then None
             else Some (server ! intn (length server))))"

definition geo_UpdateServer :: "'f float_ops \<Rightarrow> strmap \<Rightarrow> 'f geoSelector \<Rightarrow> 'f geoSelector" where
  "geo_UpdateServer fo servers s = s\<lparr>gservers := createGeoServer fo servers\<rparr>"

lemma foldl_appends:
  assumes "\<And>acc x. \<exists>g. f acc x = acc @ g"
  shows "\<exists>g. foldl f acc xs = acc @ g"
proof (induction xs arbitrary: acc)
  case (Cons x xs)
  obtain g where "f acc x = acc @ g" using assms by blast
  then show ?case using Cons [of "acc @ g"] by auto
qed simp

lemma createGeoServer_nils: "\<exists>gss. createGeoServer fo m = replicate (length m) None @ gss"
  unfolding createGeoServer_def
  by (rule foldl_appends) (auto simp: Let_def split: prod.splits option.splits sum.splits)

text \<open>C29: The selector by distance panics on every call as soon as it has a server: its slice is made
  with as many nil pointers as there are servers, in front of the servers, and \<open>Select\<close> reads the
  first of them.  With no server it returns the empty address.\<close>

theorem geo_Select_panics:
  "geo_Select fo intn (newGeoSelector fo m lat lon) = (if m = [] then Some '''' else None)"
proof (cases m)
  case Nil
  then show ?thesis by (simp add: geo_Select_def newGeoSelector_def createGeoServer_def)
next
  case (Cons kv m')
  obtain gss where "createGeoServer fo m = replicate (length m) None @ gss"
    using createGeoServer_nils [of fo m] by blast
  then show ?thesis using Cons by (simp add: geo_Select_def newGeoSelector_def)
qed

end
