(* ===== verification/Util.thy ===== *)
theory Util
  imports Frpc_Prelude
begin

text \<open>
  \<open>src/util\<close>: the conversions between strings and byte slices, and the gzip helpers.
\<close>

section \<open>util/converter.go\<close>

definition ByteToString :: "bytes \<Rightarrow> string" where
  "ByteToString b = map (\<lambda>x. char_of (unat x)) b"

definition StringToByte :: "string \<Rightarrow> bytes" where
  "StringToByte s = map (\<lambda>c. of_nat (of_char c)) s"

lemma length_StringToByte [simp]: "length (StringToByte s) = length s"
  by (simp add: StringToByte_def)

lemma length_ByteToString [simp]: "length (ByteToString b) = length b"
  by (simp add: ByteToString_def)

lemma unat_of_char_byte [simp]: "unat (of_nat (of_char c) :: byte) = (of_char c :: nat)"
  by (simp add: unat_of_nat of_char_mod_256)

lemma ByteToString_StringToByte [simp]: "ByteToString (StringToByte s) = s"
  by (simp add: ByteToString_def StringToByte_def comp_def)

lemma StringToByte_ByteToString [simp]: "StringToByte (ByteToString b) = b"
proof -
  have "(of_nat (of_char (char_of (unat x) :: char)) :: byte) = x" for x :: byte
    by (simp add: of_char_of)
  then show ?thesis by (simp add: ByteToString_def StringToByte_def comp_def map_idI)
qed

section \<open>util/compress.go\<close>

text \<open>
  The compressor is Go's \<open>compress/gzip\<close>; its writer and reader are parameters.  A writer state
  \<open>'w\<close> holds the output buffer it writes to.
\<close>

record 'w gzip_writer =
  gz_NewWriter :: 'w
  gz_Write :: "bytes \<Rightarrow> 'w \<Rightarrow> go_error option \<times> 'w"
  gz_Flush :: "'w \<Rightarrow> go_error option \<times> 'w"
  gz_Close :: "'w \<Rightarrow> go_error option \<times> 'w"
  gz_Bytes :: "'w \<Rightarrow> bytes"

record 'r gzip_reader =
  gz_NewReader :: "bytes \<Rightarrow> go_error + 'r"
  gz_ReadAll :: "'r \<Rightarrow> go_error + bytes"

definition Unzip :: "'r gzip_reader \<Rightarrow> bytes \<Rightarrow> go_error + bytes" where
  "Unzip gz data =
     (case gz_NewReader gz data of
        Inl err \<Rightarrow> Inl err
      | Inr gr \<Rightarrow>
          (case gz_ReadAll gz gr of
             Inl err \<Rightarrow> Inl err
           | Inr out \<Rightarrow> Inr out))"

definition Zip :: "'w gzip_writer \<Rightarrow> bytes \<Rightarrow> go_error + bytes" where
  "Zip gz data =
     (case gz_Write gz data (gz_NewWriter gz) of
        (Some err, w) \<Rightarrow> Inl err
      | (None, w) \<Rightarrow>
          (case gz_Flush gz w of
             (Some err, w) \<Rightarrow> Inl err
           | (None, w) \<Rightarrow>
               (case gz_Close gz w of
                  (Some err, w) \<Rightarrow> Inl err
                | (None, w) \<Rightarrow> Inr (gz_Bytes gz w))))"

end
