(* ===== verification/Message.thy ===== *)
theory Message
  imports Util "HOL-Library.Monad_Syntax"
begin

text \<open>
  \<open>src/protocol/message.go\<close> and \<open>pool.go\<close>: the twelve-byte header, the frame format and its
  encoder and decoder, and the message pool.
\<close>

section \<open>Constants and types\<close>

definition magicNumber :: byte where
  "magicNumber = 0x08"

definition ServiceError :: string where
  "ServiceError = ''__frpc_error__''"

text \<open>
  The enumerations are byte types: a header can carry any value of the field's width, named
  or not, so they stay bytes.
\<close>

type_synonym MessageType = byte
type_synonym CompressType = byte
type_synonym MessageStatusType = byte
type_synonym SerializeType = byte

definition Request :: MessageType where "Request = 0"
definition Response :: MessageType where "Response = 1"

definition CompressNone :: CompressType where "CompressNone = 0"
definition Gzip :: CompressType where "Gzip = 1"

definition Normal :: MessageStatusType where "Normal = 0"
definition Error :: MessageStatusType where "Error = 1"

definition JSON :: SerializeType where "JSON = 0"
definition ProtoBuffer :: SerializeType where "ProtoBuffer = 1"
definition MsgPack :: SerializeType where "MsgPack = 2"

definition ErrMetaKVMissing :: go_error where
  "ErrMetaKVMissing = Sentinel ''wrong metadata lines. some keys or values are missing''"

definition ErrMessageToLong :: go_error where
  "ErrMessageToLong = Sentinel ''message is too long''"

text \<open>\<open>Header\<close> is \<open>[12]byte\<close>: a list of bytes whose length \<open>wf_header\<close> fixes.\<close>

type_synonym header = bytes

definition wf_header :: "header \<Rightarrow> bool" where
  "wf_header h \<longleftrightarrow> length h = 12"

text \<open>\<open>Metadata = None\<close> is the nil map.\<close>

record message =
  Header :: header
  ServicePath :: string
  ServiceMethod :: string
  Metadata :: "strmap option"
  Payload :: bytes
  mdata :: bytes

definition NewMessage :: message where
  "NewMessage =
     \<lparr>Header = (replicate 12 0)[0 := magicNumber], ServicePath = '''', ServiceMethod = '''',
      Metadata = None, Payload = [], mdata = []\<rparr>"

lemma wf_header_NewMessage [simp]: "wf_header (Header NewMessage)"
  by (simp add: NewMessage_def wf_header_def)

section \<open>Big-endian integers\<close>

definition PutUint32 :: "u32 \<Rightarrow> bytes" where
  "PutUint32 v = [ucast (drop_bit 24 v), ucast (drop_bit 16 v), ucast (drop_bit 8 v), ucast v]"

definition Uint32 :: "bytes \<Rightarrow> u32" where
  "Uint32 b =
     ucast (b ! 3) OR push_bit 8 (ucast (b ! 2)) OR push_bit 16 (ucast (b ! 1))
       OR push_bit 24 (ucast (b ! 0))"

definition PutUint64 :: "u64 \<Rightarrow> bytes" where
  "PutUint64 v =
     [ucast (drop_bit 56 v), ucast (drop_bit 48 v), ucast (drop_bit 40 v), ucast (drop_bit 32 v),
      ucast (drop_bit 24 v), ucast (drop_bit 16 v), ucast (drop_bit 8 v), ucast v]"

definition Uint64 :: "bytes \<Rightarrow> u64" where
  "Uint64 b =
     ucast (b ! 7) OR push_bit 8 (ucast (b ! 6)) OR push_bit 16 (ucast (b ! 5))
       OR push_bit 24 (ucast (b ! 4)) OR push_bit 32 (ucast (b ! 3))
       OR push_bit 40 (ucast (b ! 2)) OR push_bit 48 (ucast (b ! 1))
       OR push_bit 56 (ucast (b ! 0))"

lemma length_PutUint32 [simp]: "length (PutUint32 v) = 4"
  by (simp add: PutUint32_def)

lemma length_PutUint64 [simp]: "length (PutUint64 v) = 8"
  by (simp add: PutUint64_def)

lemma Uint32_PutUint32: "Uint32 (PutUint32 v) = v"
proof (rule bit_word_eqI)
  fix n :: nat
  assume "n < LENGTH(32)"
  then show "bit (Uint32 (PutUint32 v)) n \<longleftrightarrow> bit v n"
    using bit_shifted_byte [of 0 v n] unfolding Uint32_def PutUint32_def
    by (simp add: bit_or_iff bit_shifted_byte) linarith
qed

lemma Uint64_PutUint64: "Uint64 (PutUint64 v) = v"
proof (rule bit_word_eqI)
  fix n :: nat
  assume "n < LENGTH(64)"
  then show "bit (Uint64 (PutUint64 v)) n \<longleftrightarrow> bit v n"
    using bit_shifted_byte [of 0 v n] unfolding Uint64_def PutUint64_def
    by (simp add: bit_or_iff bit_shifted_byte) linarith
qed

interpretation u32_field: fixed_field PutUint32 Uint32 4
  by unfold_locales (simp_all add: Uint32_PutUint32)

interpretation u64_field: fixed_field PutUint64 Uint64 8
  by unfold_locales (simp_all add: Uint64_PutUint64)

section \<open>Header accessors\<close>

definition CheckMagicNumber :: "header \<Rightarrow> bool" where
  "CheckMagicNumber h \<longleftrightarrow> h ! 0 = magicNumber"

definition Version :: "header \<Rightarrow> byte" where
  "Version h = h ! 1"

definition SetVersion :: "byte \<Rightarrow> header \<Rightarrow> header" where
  "SetVersion v h = h[1 := v]"

definition MessageType :: "header \<Rightarrow> MessageType" where
  "MessageType h = drop_bit 7 (h ! 2 AND 0x80)"

definition SetMessageType :: "MessageType \<Rightarrow> header \<Rightarrow> header" where
  "SetMessageType mt h = h[2 := h ! 2 OR push_bit 7 mt]"

definition IsHeartbeat :: "header \<Rightarrow> bool" where
  "IsHeartbeat h \<longleftrightarrow> h ! 2 AND 0x40 = 0x40"

definition SetHeartbeat :: "bool \<Rightarrow> header \<Rightarrow> header" where
  "SetHeartbeat hb h = (if hb then h[2 := h ! 2 OR 0x40] else h[2 := h ! 2 AND NOT 0x40])"

definition IsOneway :: "header \<Rightarrow> bool" where
  "IsOneway h \<longleftrightarrow> h ! 2 AND 0x20 = 0x20"

definition SetOneway :: "bool \<Rightarrow> header \<Rightarrow> header" where
  "SetOneway oneway h = (if oneway then h[2 := h ! 2 OR 0x20] else h[2 := h ! 2 AND NOT 0x20])"

definition CompressType :: "header \<Rightarrow> CompressType" where
  "CompressType h = drop_bit 2 (h ! 2 AND 0x1C)"

definition SetCompressType :: "CompressType \<Rightarrow> header \<Rightarrow> header" where
  "SetCompressType ct h = h[2 := h ! 2 OR (push_bit 2 ct AND 0x1C)]"

definition MessageStatusType :: "header \<Rightarrow> MessageStatusType" where
  "MessageStatusType h = h ! 2 AND 0x03"

definition SetMessageStatusType :: "MessageStatusType \<Rightarrow> header \<Rightarrow> header" where
  "SetMessageStatusType mt h = h[2 := h ! 2 OR (mt AND 0x03)]"

definition SerializeType :: "header \<Rightarrow> SerializeType" where
  "SerializeType h = drop_bit 4 (h ! 3 AND 0xF0)"

definition SetSerializeType :: "SerializeType \<Rightarrow> header \<Rightarrow> header" where
  "SetSerializeType st h = h[3 := h ! 3 OR push_bit 4 st]"

definition Seq :: "header \<Rightarrow> u64" where
  "Seq h = Uint64 (drop 4 h)"

definition SetSeq :: "u64 \<Rightarrow> header \<Rightarrow> header" where
  "SetSeq seq h = copy_at h 4 (PutUint64 seq)"

lemmas header_defs [frpc_defs] =
  CheckMagicNumber_def Version_def SetVersion_def MessageType_def SetMessageType_def
  IsHeartbeat_def SetHeartbeat_def IsOneway_def SetOneway_def CompressType_def
  SetCompressType_def MessageStatusType_def SetMessageStatusType_def SerializeType_def
  SetSerializeType_def

text \<open>Every setter keeps the header an array of twelve bytes.\<close>

lemma wf_header_setters [simp]:
  "wf_header (SetVersion v h) = wf_header h"
  "wf_header (SetMessageType mt h) = wf_header h"
  "wf_header (SetHeartbeat b h) = wf_header h"
  "wf_header (SetOneway b h) = wf_header h"
  "wf_header (SetCompressType ct h) = wf_header h"
  "wf_header (SetMessageStatusType st h) = wf_header h"
  "wf_header (SetSerializeType sr h) = wf_header h"
  by (simp_all add: wf_header_def frpc_defs)

lemma wf_header_SetSeq [simp]: "wf_header h \<Longrightarrow> wf_header (SetSeq seq h)"
  by (simp add: wf_header_def SetSeq_def)

lemma Seq_SetSeq [simp]: "wf_header h \<Longrightarrow> Seq (SetSeq seq h) = seq"
  by (simp add: wf_header_def Seq_def SetSeq_def copy_at_def Uint64_PutUint64)

text \<open>
  What each setter does to each field.  Heartbeat, one-way and version are overwritten; the
  four multi-bit fields are combined with \<open>OR\<close>, so they can only gain bits.
\<close>

lemma SetMessageType_fields [simp]:
  assumes "wf_header h"
  shows "CheckMagicNumber (SetMessageType mt h) = CheckMagicNumber h"
    and "Version (SetMessageType mt h) = Version h"
    and "MessageType (SetMessageType mt h) = MessageType h OR (mt AND 1)"
    and "IsHeartbeat (SetMessageType mt h) = IsHeartbeat h"
    and "IsOneway (SetMessageType mt h) = IsOneway h"
    and "CompressType (SetMessageType mt h) = CompressType h"
    and "MessageStatusType (SetMessageType mt h) = MessageStatusType h"
    and "SerializeType (SetMessageType mt h) = SerializeType h"
  using assms by (simp_all add: frpc_defs wf_header_def byte_bits)

lemma SetHeartbeat_fields [simp]:
  assumes "wf_header h"
  shows "CheckMagicNumber (SetHeartbeat b h) = CheckMagicNumber h"
    and "Version (SetHeartbeat b h) = Version h"
    and "MessageType (SetHeartbeat b h) = MessageType h"
    and "IsHeartbeat (SetHeartbeat b h) = b"
    and "IsOneway (SetHeartbeat b h) = IsOneway h"
    and "CompressType (SetHeartbeat b h) = CompressType h"
    and "MessageStatusType (SetHeartbeat b h) = MessageStatusType h"
    and "SerializeType (SetHeartbeat b h) = SerializeType h"
  using assms by (simp_all add: frpc_defs wf_header_def byte_bits)

lemma SetOneway_fields [simp]:
  assumes "wf_header h"
  shows "CheckMagicNumber (SetOneway b h) = CheckMagicNumber h"
    and "Version (SetOneway b h) = Version h"
    and "MessageType (SetOneway b h) = MessageType h"
    and "IsHeartbeat (SetOneway b h) = IsHeartbeat h"
    and "IsOneway (SetOneway b h) = b"
    and "CompressType (SetOneway b h) = CompressType h"
    and "MessageStatusType (SetOneway b h) = MessageStatusType h"
    and "SerializeType (SetOneway b h) = SerializeType h"
  using assms by (simp_all add: frpc_defs wf_header_def byte_bits)

lemma SetCompressType_fields [simp]:
  assumes "wf_header h"
  shows "CheckMagicNumber (SetCompressType ct h) = CheckMagicNumber h"
    and "Version (SetCompressType ct h) = Version h"
    and "MessageType (SetCompressType ct h) = MessageType h"
    and "IsHeartbeat (SetCompressType ct h) = IsHeartbeat h"
    and "IsOneway (SetCompressType ct h) = IsOneway h"
    and "CompressType (SetCompressType ct h) = CompressType h OR (ct AND 7)"
    and "MessageStatusType (SetCompressType ct h) = MessageStatusType h"
    and "SerializeType (SetCompressType ct h) = SerializeType h"
  using assms by (simp_all add: frpc_defs wf_header_def byte_bits)

lemma SetMessageStatusType_fields [simp]:
  assumes "wf_header h"
  shows "CheckMagicNumber (SetMessageStatusType st h) = CheckMagicNumber h"
    and "Version (SetMessageStatusType st h) = Version h"
    and "MessageType (SetMessageStatusType st h) = MessageType h"
    and "IsHeartbeat (SetMessageStatusType st h) = IsHeartbeat h"
    and "IsOneway (SetMessageStatusType st h) = IsOneway h"
    and "CompressType (SetMessageStatusType st h) = CompressType h"
    and "MessageStatusType (SetMessageStatusType st h) = MessageStatusType h OR (st AND 3)"
    and "SerializeType (SetMessageStatusType st h) = SerializeType h"
  using assms by (simp_all add: frpc_defs wf_header_def byte_bits)

lemma SetSerializeType_fields [simp]:
  assumes "wf_header h"
  shows "CheckMagicNumber (SetSerializeType sr h) = CheckMagicNumber h"
    and "Version (SetSerializeType sr h) = Version h"
    and "MessageType (SetSerializeType sr h) = MessageType h"
    and "IsHeartbeat (SetSerializeType sr h) = IsHeartbeat h"
    and "IsOneway (SetSerializeType sr h) = IsOneway h"
    and "CompressType (SetSerializeType sr h) = CompressType h"
    and "MessageStatusType (SetSerializeType sr h) = MessageStatusType h"
    and "SerializeType (SetSerializeType sr h) = SerializeType h OR (sr AND 15)"
  using assms by (simp_all add: frpc_defs wf_header_def byte_bits)

lemma SetVersion_fields [simp]:
  assumes "wf_header h"
  shows "CheckMagicNumber (SetVersion v h) = CheckMagicNumber h"
    and "Version (SetVersion v h) = v"
    and "MessageType (SetVersion v h) = MessageType h"
    and "IsHeartbeat (SetVersion v h) = IsHeartbeat h"
    and "IsOneway (SetVersion v h) = IsOneway h"
    and "CompressType (SetVersion v h) = CompressType h"
    and "MessageStatusType (SetVersion v h) = MessageStatusType h"
    and "SerializeType (SetVersion v h) = SerializeType h"
  using assms by (simp_all add: frpc_defs wf_header_def byte_bits)

lemma SetSeq_nth: "wf_header h \<Longrightarrow> i < 4 \<Longrightarrow> SetSeq seq h ! i = h ! i"
  by (simp add: wf_header_def SetSeq_def copy_at_def nth_append)

lemma SetSeq_fields [simp]:
  assumes "wf_header h"
  shows "CheckMagicNumber (SetSeq seq h) = CheckMagicNumber h"
    and "Version (SetSeq seq h) = Version h"
    and "MessageType (SetSeq seq h) = MessageType h"
    and "IsHeartbeat (SetSeq seq h) = IsHeartbeat h"
    and "IsOneway (SetSeq seq h) = IsOneway h"
    and "CompressType (SetSeq seq h) = CompressType h"
    and "MessageStatusType (SetSeq seq h) = MessageStatusType h"
    and "SerializeType (SetSeq seq h) = SerializeType h"
  using assms by (simp_all add: frpc_defs SetSeq_nth)

lemma Seq_setters [simp]:
  "Seq (SetMessageType mt h) = Seq h"
  "Seq (SetHeartbeat b h) = Seq h"
  "Seq (SetOneway b h) = Seq h"
  "Seq (SetCompressType ct h) = Seq h"
  "Seq (SetMessageStatusType st h) = Seq h"
  "Seq (SetSerializeType sr h) = Seq h"
  "Seq (SetVersion v h) = Seq h"
  by (simp_all add: Seq_def frpc_defs)

section \<open>Reset, the pool and Copy\<close>

definition resetHeader :: "header \<Rightarrow> header" where
  "resetHeader h = copy_at h 1 (replicate 11 0)"

definition Reset :: "message \<Rightarrow> message" where
  "Reset m = m\<lparr>Header := resetHeader (Header m), Metadata := None, Payload := [], mdata := [],
     ServicePath := '''', ServiceMethod := ''''\<rparr>"

text \<open>
  \<open>sync.Pool\<close> hands out any message that was put back, or a new one.  The choice is the
  runtime's: \<open>Some i\<close> takes the \<open>i\<close>-th stored message, \<open>None\<close> calls \<open>New\<close>.
\<close>

definition GetMsgs :: "nat option \<Rightarrow> message list \<Rightarrow> message \<times> message list" where
  "GetMsgs choice pool =
     (case choice of
        None \<Rightarrow> (NewMessage, pool)
      | Some i \<Rightarrow>
          if i < length pool then (pool ! i, take i pool @ drop (Suc i) pool)
          else (NewMessage, pool))"

definition FreeMsg :: "message \<Rightarrow> message list \<Rightarrow> message list" where
  "FreeMsg msg pool = Reset msg # pool"

text \<open>\<open>Copy\<close> fills the pooled message \<open>c\<close>.\<close>

definition Copy :: "message \<Rightarrow> message \<Rightarrow> message" where
  "Copy m c = c\<lparr>Header := Header m, ServicePath := ServicePath m, ServiceMethod := ServiceMethod m\<rparr>"

text \<open>A message as \<open>Reset\<close> leaves it: everything cleared but the first header byte.\<close>

definition cleared :: "message \<Rightarrow> bool" where
  "cleared m \<longleftrightarrow> wf_header (Header m) \<and> tl (Header m) = replicate 11 0 \<and>
     ServicePath m = '''' \<and> ServiceMethod m = '''' \<and> Metadata m = None \<and> Payload m = [] \<and>
     mdata m = []"

lemma resetHeader_eq: "wf_header h \<Longrightarrow> resetHeader h = hd h # replicate 11 0"
  by (cases h) (simp_all add: wf_header_def resetHeader_def copy_at_def)

lemma NewMessage_cleared: "cleared NewMessage"
  by (simp add: cleared_def NewMessage_def wf_header_def numeral_eq_Suc)

lemma Reset_cleared: "wf_header (Header m) \<Longrightarrow> cleared (Reset m)"
  by (simp add: cleared_def Reset_def resetHeader_eq) (simp add: wf_header_def)

lemma cleared_nth:
  assumes "cleared m" and "0 < i" and "i < 12"
  shows "Header m ! i = 0"
proof -
  from assms(1) have "Header m \<noteq> []" by (auto simp: cleared_def wf_header_def)
  with assms have "Header m ! i = tl (Header m) ! (i - 1)"
    by (cases "Header m") (simp_all add: nth_Cons')
  with assms show ?thesis by (simp add: cleared_def)
qed

lemma cleared_fields [simp]:
  assumes "cleared m"
  shows "wf_header (Header m)" and "MessageType (Header m) = 0" and "\<not> IsHeartbeat (Header m)"
    and "\<not> IsOneway (Header m)" and "CompressType (Header m) = 0"
    and "MessageStatusType (Header m) = 0" and "SerializeType (Header m) = 0"
    and "Version (Header m) = 0"
    and "ServicePath m = ''''" and "ServiceMethod m = ''''" and "Metadata m = None"
    and "Payload m = []"
  using assms cleared_nth [OF assms, of 1] cleared_nth [OF assms, of 2]
    cleared_nth [OF assms, of 3]
  by (simp_all add: cleared_def frpc_defs)

lemma GetMsgs_cleared:
  assumes "\<forall>m \<in> set pool. cleared m" and "GetMsgs choice pool = (m, pool')"
  shows "cleared m" and "\<forall>m \<in> set pool'. cleared m"
proof -
  show "cleared m"
    using assms by (auto simp: GetMsgs_def NewMessage_cleared split: option.splits if_splits)
  show "\<forall>m \<in> set pool'. cleared m"
    using assms set_take_subset set_drop_subset
    by (fastforce simp: GetMsgs_def split: option.splits if_splits)
qed

lemma FreeMsg_cleared:
  "wf_header (Header m) \<Longrightarrow> \<forall>m \<in> set pool. cleared m \<Longrightarrow>
   \<forall>m \<in> set (FreeMsg m pool). cleared m"
  by (simp add: FreeMsg_def Reset_cleared)

section \<open>Encoding\<close>

fun encodePairs :: "strmap \<Rightarrow> bytes" where
  "encodePairs [] = []"
| "encodePairs ((k, v) # m) =
     PutUint32 (of_nat (length k)) @ StringToByte k @
     PutUint32 (of_nat (length v)) @ StringToByte v @ encodePairs m"

definition encodeMetadata :: "strmap option \<Rightarrow> bytes" where
  "encodeMetadata m =
     (case m of
        None \<Rightarrow> []
      | Some m \<Rightarrow> if length m = 0 then [] else encodePairs m)"

text \<open>
  \<open>binary.BigEndian.PutUint32(buf[a:b], v)\<close> and \<open>copy(buf[a:b], src)\<close>: \<open>None\<close> is the panic on
  a slice that is out of range, or too short for the integer.
\<close>

definition put_uint32 :: "bytes \<Rightarrow> nat \<Rightarrow> nat \<Rightarrow> u32 \<Rightarrow> bytes option" where
  "put_uint32 buf a b v =
     (if a \<le> b \<and> b \<le> length buf \<and> 4 \<le> b - a then Some (copy_at buf a (PutUint32 v)) else None)"

definition copy_slice :: "bytes \<Rightarrow> nat \<Rightarrow> nat \<Rightarrow> bytes \<Rightarrow> bytes option" where
  "copy_slice buf a b src =
     (if a \<le> b \<and> b \<le> length buf then Some (copy_at buf a (take (b - a) src)) else None)"

definition Encode :: "message \<Rightarrow> bytes option" where
  "Encode m =
     (let meta = encodeMetadata (Metadata m);
          spl = length (ServicePath m);
          sml = length (ServiceMethod m);
          allL = (4 + spl) + (4 + sml) + (4 + length meta) + (4 + length (Payload m));
          metaStart = 12 + 4 + (4 + spl) + (4 + sml);
          payLoadStart = metaStart + (4 + length meta);
          l = 12 + 4 + allL
      in do {
        d \<leftarrow> copy_slice (replicate l 0) 0 l (Header m);
        d \<leftarrow> put_uint32 d 12 16 (of_nat allL);
        d \<leftarrow> put_uint32 d 16 20 (of_nat spl);
        d \<leftarrow> copy_slice d 20 (20 + spl) (StringToByte (ServicePath m));
        d \<leftarrow> put_uint32 d (20 + spl) (24 + spl) (of_nat sml);
        d \<leftarrow> copy_slice d (24 + spl) metaStart (StringToByte (ServiceMethod m));
        d \<leftarrow> put_uint32 d metaStart (metaStart + 4) (of_nat (length meta));
        d \<leftarrow> copy_slice d (metaStart + 4) l meta;
        d \<leftarrow> put_uint32 d payLoadStart (payLoadStart + 4) (of_nat (length (Payload m)));
        d \<leftarrow> copy_slice d (payLoadStart + 4) l (Payload m);
        Some d
      })"

text \<open>The reference format: length-prefixed fields, one after the other.\<close>

definition field :: "bytes \<Rightarrow> bytes" where
  "field b = PutUint32 (of_nat (length b)) @ b"

definition body :: "message \<Rightarrow> bytes" where
  "body m = field (StringToByte (ServicePath m)) @ field (StringToByte (ServiceMethod m)) @
     field (encodeMetadata (Metadata m)) @ field (Payload m)"

definition frame :: "message \<Rightarrow> bytes" where
  "frame m = Header m @ field (body m)"

lemma length_field [simp]: "length (field b) = 4 + length b"
  by (simp add: field_def)

lemma Encode_frame:
  assumes "wf_header (Header m)"
  shows "Encode m = Some (frame m)"
proof -
  have 12: "length (Header m) = 12" using assms by (simp add: wf_header_def)
  show ?thesis
    unfolding Encode_def Let_def filled_empty
    by (simp add: copy_slice_def put_uint32_def slice_simps 12 frame_def body_def field_def)
qed

section \<open>Properties\<close>

text \<open>C24: the packed header fields do not disturb each other: on a cleared message every field
  set to a value of its width reads back as set, and the protocol's magic byte is untouched.\<close>

theorem header_fields_roundtrip:
  assumes "cleared m" and "mt < 2" and "ct < 8" and "st < 4" and "sr < 16"
  shows "let h = SetSeq seq (SetSerializeType sr (SetMessageStatusType st (SetCompressType ct
      (SetOneway ow (SetHeartbeat hb (SetMessageType mt (SetVersion v (Header m)))))))) in
    wf_header h \<and> MessageType h = mt \<and> IsHeartbeat h = hb \<and> IsOneway h = ow \<and>
    CompressType h = ct \<and> MessageStatusType h = st \<and> SerializeType h = sr \<and>
    Version h = v \<and> Seq h = seq \<and> (CheckMagicNumber h \<longleftrightarrow> CheckMagicNumber (Header m))"
proof -
  have "mt AND 1 = mt" "ct AND 7 = ct" "st AND 3 = st" "sr AND 15 = sr"
    using assms(2-5) less_mask_eq [of mt 1] less_mask_eq [of ct 3] less_mask_eq [of st 2]
      less_mask_eq [of sr 4]
    by (simp_all add: mask_eq_exp_minus_1)
  then show ?thesis using assms(1) by (simp add: Let_def)
qed

theorem header_fields_roundtrip_witness:
  "cleared NewMessage \<and>
   SerializeType (SetSeq 9 (SetSerializeType MsgPack (SetMessageStatusType Error (SetCompressType Gzip
      (SetOneway True (SetHeartbeat False (SetMessageType Response
        (SetVersion 5 (Header NewMessage))))))))) = MsgPack"
  using header_fields_roundtrip [of NewMessage Response Gzip Error MsgPack 9 True False 5]
    NewMessage_cleared
  by (simp add: Let_def Response_def Gzip_def Error_def MsgPack_def)

text \<open>C25: the message pool never leaks one call's data into another: if every stored message is
  cleared, then so is the one handed out and so are those that remain, and freeing any message
  keeps the pool that way.\<close>

theorem pool_stays_cleared:
  assumes "\<forall>m \<in> set pool. cleared m" and "wf_header (Header used)"
    and "GetMsgs choice (FreeMsg used pool) = (m, pool')"
  shows "cleared m \<and> (\<forall>m \<in> set pool'. cleared m)"
  using GetMsgs_cleared [OF FreeMsg_cleared [OF assms(2,1)] assms(3)] by simp

theorem pool_stays_cleared_witness:
  "cleared (fst (GetMsgs (Some 0) (FreeMsg (NewMessage\<lparr>Payload := [1]\<rparr>) [NewMessage])))"
  using pool_stays_cleared [of "[NewMessage]" "NewMessage\<lparr>Payload := [1]\<rparr>" "Some 0"
      "Reset (NewMessage\<lparr>Payload := [1]\<rparr>)" "[NewMessage]"]
  by (simp add: GetMsgs_def FreeMsg_def NewMessage_cleared)

text \<open>Clearing a message keeps its first header byte, so a message whose sender used another
  magic number, which the decoder accepts, hands that number on to the next user of the pool.\<close>

lemma Reset_keeps_magic:
  assumes "wf_header (Header m)"
  shows "CheckMagicNumber (Header (fst (GetMsgs (Some 0) (FreeMsg m pool)))) =
    CheckMagicNumber (Header m)"
  using assms
  by (cases "Header m")
    (simp_all add: GetMsgs_def FreeMsg_def Reset_def resetHeader_eq CheckMagicNumber_def wf_header_def)

end
