(* ===== verification/Message_Decode.thy ===== *)
theory Message_Decode
  imports Message
begin

text \<open>
  \<open>src/protocol/message.go\<close>, continued: \<open>Decode\<close> and \<open>decodeMetadata\<close>, with every slice
  expression's bounds check, and the round trip with \<open>Encode\<close>.
\<close>

section \<open>Readers\<close>

text \<open>
  An \<open>io.Reader\<close> as the decoder sees it: the bytes that will still arrive, and the error the
  stream ends with (\<open>io.EOF\<close> on an orderly close, a network error otherwise).
\<close>

record reader =
  avail :: bytes
  rerr :: go_error

text \<open>
  \<open>io.ReadFull(r, buf)\<close> for a buffer of \<open>n\<close> bytes: the bytes read, the error, and the rest.
\<close>

definition ReadFull :: "reader \<Rightarrow> nat \<Rightarrow> bytes \<times> go_error option \<times> reader" where
  "ReadFull r n =
     (if n \<le> length (avail r) then (take n (avail r), None, r\<lparr>avail := drop n (avail r)\<rparr>)
      else (avail r,
            Some (if avail r \<noteq> [] \<and> rerr r = EOF then UnexpectedEOF else rerr r),
            r\<lparr>avail := []\<rparr>))"

section \<open>decodeMetadata\<close>

text \<open>
  The offset never wraps without a slice expression panicking first, so it grows on every
  iteration: the loop ends on every input, hostile ones included.
\<close>

lemma slice_offset_grows:
  fixes n d :: u32
  assumes "subslice buf (unat n) (unat (n + d)) = Some x"
  shows "unat (n + d) = unat n + unat d"
  using assms by (auto dest!: slice_SomeD intro: word_add_no_wrap)

text \<open>
  The loop of \<open>decodeMetadata\<close> at offset \<open>n\<close>.  \<open>l\<close> and all offsets are \<open>uint32\<close> and wrap
  around.  The argument slice \<open>data[n:nEnd]\<close> keeps the capacity of the whole frame, so its
  bounds checks are against \<open>buf\<close>, the frame from the first metadata byte to its end.
\<close>

function decodeMetadata_loop :: "u32 \<Rightarrow> bytes \<Rightarrow> u32 \<Rightarrow> strmap \<Rightarrow> status \<times> strmap" where
  "decodeMetadata_loop l buf n m =
    (if n < l then
    (case subslice buf (unat n) (unat (n + 4)) of None \<Rightarrow> (Panic, m) | Some b \<Rightarrow>
    (let sl = Uint32 b; n1 = n + 4 in
    (if n1 + sl > l - 4 then (Fail ErrMetaKVMissing, m) else
    (case subslice buf (unat n1) (unat (n1 + sl)) of None \<Rightarrow> (Panic, m) | Some k \<Rightarrow>
    (let n2 = n1 + sl in
    (case subslice buf (unat n2) (unat (n2 + 4)) of None \<Rightarrow> (Panic, m) | Some b \<Rightarrow>
    (let sl = Uint32 b; n3 = n2 + 4 in
    (if n3 + sl > l then (Fail ErrMetaKVMissing, m) else
    (case subslice buf (unat n3) (unat (n3 + sl)) of None \<Rightarrow> (Panic, m) | Some v \<Rightarrow>
       decodeMetadata_loop l buf (n3 + sl)
         (AList.update (ByteToString k) (ByteToString v) m))))))))))
     else (Done, m))"
  by pat_completeness auto

termination
proof (relation "measure (\<lambda>(l, buf, n, m). unat l - unat n)", simp)
  fix l n :: u32 and buf :: bytes and m :: strmap and b b' k v :: bytes and sl n1 n2 sl' n3 :: u32
  assume less: "n < l" and 0: "subslice buf (unat n) (unat (n + 4)) = Some b"
    and n1: "n1 = n + 4" and 1: "subslice buf (unat n1) (unat (n1 + sl)) = Some k"
    and n2: "n2 = n1 + sl" and 2: "subslice buf (unat n2) (unat (n2 + 4)) = Some b'"
    and n3: "n3 = n2 + 4" and 3: "subslice buf (unat n3) (unat (n3 + sl')) = Some v"
  have "unat n < unat (n3 + sl')"
    using slice_offset_grows [OF 0] slice_offset_grows [OF 1] slice_offset_grows [OF 2]
      slice_offset_grows [OF 3] n1 n2 n3 by simp
  moreover have "unat n < unat l" using less by (simp add: word_less_nat_alt)
  ultimately
  show "((l, buf, n3 + sl', AList.update (ByteToString k) (ByteToString v) m), (l, buf, n, m))
      \<in> measure (\<lambda>(l, buf, n, m). unat l - unat n)"
    by simp
qed

declare decodeMetadata_loop.simps [simp del]

definition decodeMetadata :: "u32 \<Rightarrow> bytes \<Rightarrow> status \<times> strmap" where
  "decodeMetadata l buf = decodeMetadata_loop l buf 0 []"

section \<open>Decode\<close>

text \<open>The \<open>if l > 0\<close> statement: on an error the partly filled map has been assigned.\<close>

definition parse_meta :: "message \<Rightarrow> bytes \<Rightarrow> u32 \<Rightarrow> nat \<Rightarrow> nat \<Rightarrow> status \<times> message" where
  "parse_meta m d l n nEnd =
     (if l > 0 then
        (case subslice d n nEnd of
           None \<Rightarrow> (Panic, m)
         | Some _ \<Rightarrow>
             (case decodeMetadata l (drop n d) of
                (Panic, _) \<Rightarrow> (Panic, m)
              | (st, meta) \<Rightarrow> (st, m\<lparr>Metadata := Some meta\<rparr>)))
      else (Done, m))"

text \<open>The part of \<open>Decode\<close> after the frame's bytes are in \<open>data\<close>.\<close>

definition parse_body :: "message \<Rightarrow> bytes \<Rightarrow> status \<times> message" where
  "parse_body m d =
    (case subslice d 0 4 of None \<Rightarrow> (Panic, m) | Some b \<Rightarrow>
    (let n = 4; nEnd = n + unat (Uint32 b) in
    (case subslice d n nEnd of None \<Rightarrow> (Panic, m) | Some s \<Rightarrow>
    (let m = m\<lparr>ServicePath := ByteToString s\<rparr>; n = nEnd in
    (case subslice d n (n + 4) of None \<Rightarrow> (Panic, m) | Some b \<Rightarrow>
    (let n = n + 4; nEnd = n + unat (Uint32 b) in
    (case subslice d n nEnd of None \<Rightarrow> (Panic, m) | Some s \<Rightarrow>
    (let m = m\<lparr>ServiceMethod := ByteToString s\<rparr>; n = nEnd in
    (case subslice d n (n + 4) of None \<Rightarrow> (Panic, m) | Some b \<Rightarrow>
    (let l = Uint32 b; n = n + 4; nEnd = n + unat l in
    (case parse_meta m d l n nEnd of
       (Panic, m) \<Rightarrow> (Panic, m)
     | (Fail err, m) \<Rightarrow> (Fail err, m)
     | (Done, m) \<Rightarrow>
    (let n = nEnd in
    (case subslice d n (n + 4) of None \<Rightarrow> (Panic, m) | Some _ \<Rightarrow>
    (let n = n + 4 in
    (Done, m\<lparr>Payload := drop n d\<rparr>)))))))))))))))"

definition Decode :: "int \<Rightarrow> message \<Rightarrow> reader \<Rightarrow> status \<times> message \<times> reader" where
  "Decode MaxMessageLength m r =
    (case ReadFull r 12 of
       (hdr, Some err, r) \<Rightarrow> (Fail err, m\<lparr>Header := copy_at (Header m) 0 hdr\<rparr>, r)
     | (hdr, None, r) \<Rightarrow>
    (let m = m\<lparr>Header := copy_at (Header m) 0 hdr\<rparr> in
    (case ReadFull r 4 of
       (_, Some err, r) \<Rightarrow> (Fail err, m, r)
     | (lenData, None, r) \<Rightarrow>
    (let l = Uint32 lenData in
    (if MaxMessageLength > 0 \<and> int (unat l) > MaxMessageLength
     then (Fail ErrMessageToLong, m, r)
     else
    (case ReadFull r (unat l) of
       (_, Some err, r) \<Rightarrow> (Fail err, m, r)
     | (d, None, r) \<Rightarrow>
    (case parse_body (m\<lparr>mdata := d\<rparr>) d of (st, m) \<Rightarrow> (st, m, r))))))))"

text \<open>
  A message the format can carry: its length fits the 32-bit length field and its metadata is
  a map.
\<close>

definition wf_message :: "message \<Rightarrow> bool" where
  "wf_message m \<longleftrightarrow> wf_header (Header m) \<and> length (body m) < 2 ^ 32 \<and>
     (\<forall>kvs. Metadata m = Some kvs \<longrightarrow> distinct (map fst kvs))"
text \<open>The metadata a decoded message has: a frame without any leaves the target's as it was.\<close>

definition received_meta :: "strmap option \<Rightarrow> strmap option \<Rightarrow> strmap option" where
  "received_meta sent old = (if encodeMetadata sent = [] then old else sent)"

section \<open>Round trip\<close>

lemma field_slices:
  assumes "length p = a" and "length b < 2 ^ 32"
  shows "subslice (p @ field b @ s) a (a + 4) = Some (PutUint32 (of_nat (length b)))"
    and "subslice (p @ field b @ s) (a + 4) (a + 4 + length b) = Some b"
proof -
  show "subslice (p @ field b @ s) a (a + 4) = Some (PutUint32 (of_nat (length b)))"
    using u32_field.slice_put [of p a "of_nat (length b)" "b @ s"] assms by (simp add: field_def)
  show "subslice (p @ field b @ s) (a + 4) (a + 4 + length b) = Some b"
    using slice_middle [of "p @ PutUint32 (of_nat (length b))" "a + 4" b "a + 4 + length b" s] assms
    by (simp add: field_def)
qed

lemma decodeMetadata_loop_step:
  assumes buf: "buf = p @ field (StringToByte k) @ field (StringToByte v) @ s"
    and L: "length p + (8 + length k + length v) \<le> L" "L < 2 ^ 32"
  shows "decodeMetadata_loop (of_nat L) buf (of_nat (length p)) m =
    decodeMetadata_loop (of_nat L) buf (of_nat (length p + (8 + length k + length v)))
      (AList.update k v m)"
proof -
  let ?K = "StringToByte k" and ?V = "StringToByte v"
  define a b c d e where "a = length p" and "b = a + 4" and "c = b + length k" and "d = c + 4"
    and "e = d + length v"
  note offsets = this
  have words: "(of_nat a + 4 :: u32) = of_nat b" "(of_nat b + of_nat (length k) :: u32) = of_nat c"
    "(of_nat c + 4 :: u32) = of_nat d" "(of_nat d + of_nat (length v) :: u32) = of_nat e"
    "(of_nat L - 4 :: u32) = of_nat (L - 4)" "length p + (8 + length k + length v) = e"
    using L by (simp_all add: offsets of_nat_diff)
  have bounds: "a < L" "c \<le> L - 4" "a \<le> L" "b \<le> L" "c \<le> L" "d \<le> L" "e \<le> L"
    using L by (simp_all add: offsets)
  have u: "unat (of_nat x :: u32) = x" if "x \<le> L" for x
    using that L by (simp add: unat_of_nat_u32)
  have reads: "subslice buf a b = Some (PutUint32 (of_nat (length k)))" "subslice buf b c = Some ?K"
    "subslice buf c d = Some (PutUint32 (of_nat (length v)))" "subslice buf d e = Some ?V"
    using field_slices [of p a ?K "field ?V @ s"] field_slices [of "p @ field ?K" c ?V s] L
    by (simp_all add: buf offsets)
  show ?thesis
    unfolding words(6) using bounds by (subst decodeMetadata_loop.simps)
      (simp add: Let_def words u reads word_less_nat_alt u32_field.get_put
        flip: a_def del: of_nat_diff)
qed

lemma decodeMetadata_loop_encodePairs:
  assumes "length p + length (encodePairs kvs) = L" and "L < 2 ^ 32"
    and "distinct (map fst (m @ kvs))"
  shows "decodeMetadata_loop (of_nat L) (p @ encodePairs kvs @ s) (of_nat (length p)) m =
    (Done, m @ kvs)"
  using assms
proof (induction kvs arbitrary: p m)
  case Nil
  then show ?case by (subst decodeMetadata_loop.simps) simp
next
  case (Cons kv kvs)
  obtain k v where kv: "kv = (k, v)" by (cases kv)
  let ?q = "p @ field (StringToByte k) @ field (StringToByte v)"
  have pairs: "encodePairs (kv # kvs) = field (StringToByte k) @ field (StringToByte v) @ encodePairs kvs"
    by (simp add: kv field_def)
  have fresh: "k \<notin> fst ` set m" using Cons.prems(3) by (auto simp: kv)
  have "decodeMetadata_loop (of_nat L) (p @ encodePairs (kv # kvs) @ s) (of_nat (length p)) m =
    decodeMetadata_loop (of_nat L) (?q @ encodePairs kvs @ s) (of_nat (length ?q)) (m @ [(k, v)])"
    using decodeMetadata_loop_step [of _ p k v "encodePairs kvs @ s" L m] Cons.prems(1,2)
    by (simp add: pairs AList_update_fresh fresh algebra_simps)
  also have "\<dots> = (Done, (m @ [(k, v)]) @ kvs)"
    using Cons.prems by (intro Cons.IH) (simp_all add: pairs kv)
  finally show ?case by (simp add: kv)
qed

lemma decodeMetadata_encode:
  assumes "distinct (map fst kvs)" and "length (encodePairs kvs) < 2 ^ 32"
  shows "decodeMetadata (of_nat (length (encodePairs kvs))) (encodePairs kvs @ s) = (Done, kvs)"
  using decodeMetadata_loop_encodePairs [of "[]" kvs _ "[]" s] assms
  by (simp add: decodeMetadata_def)

lemma encodeMetadata_cases:
  "encodeMetadata m = (case m of None \<Rightarrow> [] | Some kvs \<Rightarrow> encodePairs kvs)"
  by (auto simp: encodeMetadata_def split: option.splits)

lemma encodePairs_eq_Nil [simp]: "encodePairs kvs = [] \<longleftrightarrow> kvs = []"
  by (cases kvs) (auto simp: PutUint32_def)

lemma parse_meta_encode:
  assumes "wf_message m" and d: "d = p @ encodeMetadata (Metadata m) @ s" and "length p = n"
  shows "parse_meta m0 d (of_nat (length (encodeMetadata (Metadata m)))) n
      (n + length (encodeMetadata (Metadata m))) =
    (Done, m0\<lparr>Metadata := received_meta (Metadata m) (Metadata m0)\<rparr>)"
proof (cases "encodeMetadata (Metadata m) = []")
  case True
  then show ?thesis by (simp add: parse_meta_def received_meta_def)
next
  case False
  then obtain kvs where kvs: "Metadata m = Some kvs"
    by (auto simp: encodeMetadata_cases split: option.splits)
  have enc: "encodeMetadata (Metadata m) = encodePairs kvs"
    by (simp add: kvs encodeMetadata_cases)
  have len: "length (encodePairs kvs) < 2 ^ 32"
    using assms(1) by (simp add: wf_message_def body_def enc)
  have "of_nat (length (encodePairs kvs)) > (0 :: u32)"
    using len False enc by (simp add: word_less_nat_alt unat_of_nat_u32)
  moreover have "subslice d n (n + length (encodePairs kvs)) = Some (encodePairs kvs)"
    using assms by (simp add: enc slice_middle)
  moreover have "decodeMetadata (of_nat (length (encodePairs kvs))) (drop n d) = (Done, kvs)"
    using decodeMetadata_encode [of kvs s] len assms by (simp add: enc wf_message_def) (simp add: kvs)
  ultimately show ?thesis using False
    by (simp add: parse_meta_def received_meta_def enc) (simp add: kvs)
qed

lemma parse_body_body:
  assumes "wf_message m"
  shows "parse_body m0 (body m) =
    (Done, m0\<lparr>ServicePath := ServicePath m, ServiceMethod := ServiceMethod m,
       Metadata := received_meta (Metadata m) (Metadata m0), Payload := Payload m\<rparr>)"
proof -
  let ?P = "StringToByte (ServicePath m)" and ?M = "StringToByte (ServiceMethod m)"
    and ?T = "encodeMetadata (Metadata m)" and ?Y = "Payload m"
  have len: "length (ServicePath m) < 2 ^ 32" "length (ServiceMethod m) < 2 ^ 32"
    "length ?T < 2 ^ 32" "length ?Y < 2 ^ 32"
    using assms by (simp_all add: wf_message_def body_def)
  define a b c d e f where "a = 4 + length (ServicePath m)" and "b = a + 4"
    and "c = b + length (ServiceMethod m)" and "d = c + 4" and "e = d + length ?T" and "f = e + 4"
  note offsets = this
  have reads: "subslice (body m) 0 4 = Some (PutUint32 (of_nat (length (ServicePath m))))"
    "subslice (body m) 4 a = Some ?P"
    "subslice (body m) a b = Some (PutUint32 (of_nat (length (ServiceMethod m))))"
    "subslice (body m) b c = Some ?M"
    "subslice (body m) c d = Some (PutUint32 (of_nat (length ?T)))"
    "subslice (body m) e f = Some (PutUint32 (of_nat (length ?Y)))"
    using len field_slices [of "[]" 0 ?P "field ?M @ field ?T @ field ?Y"]
      field_slices [of "field ?P" a ?M "field ?T @ field ?Y"]
      field_slices [of "field ?P @ field ?M" c ?T "field ?Y"]
      field_slices [of "field ?P @ field ?M @ field ?T" e ?Y "[]"]
    by (simp_all add: body_def offsets)
  have meta: "parse_meta m' (body m) (of_nat (length ?T)) d e =
    (Done, m'\<lparr>Metadata := received_meta (Metadata m) (Metadata m')\<rparr>)" for m'
    unfolding offsets(5)
    by (rule parse_meta_encode [OF assms, of _
          "field ?P @ field ?M @ PutUint32 (of_nat (length ?T))" "field ?Y"])
      (simp_all add: body_def field_def offsets)
  have rest: "drop f (body m) = ?Y"
    by (simp add: body_def field_def offsets)
  show ?thesis
    unfolding parse_body_def Let_def
    by (simp add: reads meta rest u32_field.get_put unat_of_nat_u32 [OF len(1)]
        unat_of_nat_u32 [OF len(2)] unat_of_nat_u32 [OF len(3)] flip: offsets)
qed
section \<open>Whole frames\<close>

lemma ReadFull_append [simp]:
  "length b = n \<Longrightarrow> ReadFull \<lparr>avail = b @ s, rerr = e\<rparr> n = (b, None, \<lparr>avail = s, rerr = e\<rparr>)"
  by (simp add: ReadFull_def)

lemma copy_at_whole: "length b = length h \<Longrightarrow> copy_at h 0 b = b"
  by (simp add: copy_at_def)

text \<open>What \<open>Decode\<close> makes of a target message from a frame that encodes \<open>m\<close>.\<close>

definition received :: "message \<Rightarrow> message \<Rightarrow> message" where
  "received m m0 = m0\<lparr>Header := Header m, mdata := body m, ServicePath := ServicePath m,
     ServiceMethod := ServiceMethod m,
     Metadata := received_meta (Metadata m) (Metadata m0), Payload := Payload m\<rparr>"

definition within_limit :: "int \<Rightarrow> nat \<Rightarrow> bool" where
  "within_limit MaxMessageLength n \<longleftrightarrow> \<not> (MaxMessageLength > 0 \<and> int n > MaxMessageLength)"

lemma Decode_frame:
  assumes "wf_message m" and "wf_header (Header m0)" and "within_limit lim (length (body m))"
  shows "Decode lim m0 \<lparr>avail = frame m @ rest, rerr = e\<rparr> =
    (Done, received m m0, \<lparr>avail = rest, rerr = e\<rparr>)"
proof -
  have len: "length (Header m) = 12" "length (Header m0) = 12" "length (body m) < 2 ^ 32"
    using assms by (simp_all add: wf_message_def wf_header_def)
  show ?thesis
    using assms(3) parse_body_body [OF assms(1)]
    by (simp add: Decode_def frame_def field_def len(1,2) copy_at_whole u32_field.get_put Let_def
        unat_of_nat_u32 [OF len(3)] uint_of_nat_u32 [OF len(3)] received_def within_limit_def)
qed

text \<open>A small message for the concrete instances.\<close>

definition sample_message :: message where
  "sample_message = NewMessage\<lparr>Header := SetSeq 7 (SetSerializeType MsgPack (Header NewMessage)),
     ServicePath := ''Arith'', ServiceMethod := ''Mul'',
     Metadata := Some [(''k'', ''v''), (''trace'', ''1'')], Payload := [1, 2, 3]\<rparr>"

lemma wf_sample: "wf_message sample_message" "length (body sample_message) = 51"
  by (simp_all add: wf_message_def sample_message_def body_def encodeMetadata_def)
lemma ReadFull_short:
  "length b < n \<Longrightarrow> ReadFull \<lparr>avail = b, rerr = e\<rparr> n =
    (b, Some (if b \<noteq> [] \<and> e = EOF then UnexpectedEOF else e), \<lparr>avail = [], rerr = e\<rparr>)"
  by (simp add: ReadFull_def)

lemma take_frame_cases:
  assumes "wf_header (Header m)" and "n < length (frame m)"
  obtains (header) "n < 12" "take n (frame m) = take n (Header m)"
  | (lenfield) k where "n = 12 + k" "k < 4"
      "take n (frame m) = Header m @ take k (PutUint32 (of_nat (length (body m))))"
  | (body) k where "n = 16 + k" "k < length (body m)"
      "take n (frame m) = Header m @ PutUint32 (of_nat (length (body m))) @ take k (body m)"
proof -
  have len: "length (Header m) = 12" using assms by (simp add: wf_header_def)
  consider "n < 12" | "12 \<le> n" "n < 16" | "16 \<le> n" by linarith
  then show thesis
  proof cases
    case 1
    then show thesis by (intro header) (simp_all add: frame_def len)
  next
    case 2
    then show thesis
      by (intro lenfield [of "n - 12"]) (simp_all add: frame_def field_def len)
  next
    case 3
    then show thesis
      using assms(2) by (intro body [of "n - 16"]) (simp_all add: frame_def field_def len)
  qed
qed

lemma parse_body_header:
  "parse_body m d = (st, m') \<Longrightarrow> Header m' = Header m \<and> mdata m' = mdata m"
  by (auto simp: parse_body_def parse_meta_def Let_def
      split: option.splits status.splits if_splits prod.splits)

lemma ReadFull_SomeD:
  "ReadFull r n = (b, None, r') \<Longrightarrow> n \<le> length (avail r) \<and> b = take n (avail r) \<and>
     avail r' = drop n (avail r) \<and> rerr r' = rerr r"
  by (auto simp: ReadFull_def split: if_splits)

lemma Decode_reads:
  assumes "Decode lim m0 r = (st, m, r')" and "wf_header (Header m0)" and "\<forall>e. st \<noteq> Fail e"
  defines "l \<equiv> unat (Uint32 (take 4 (drop 12 (avail r))))"
  shows "16 + l \<le> length (avail r)" and "within_limit lim l" and "avail r' = drop (16 + l) (avail r)"
    and "Header m = take 12 (avail r)" and "mdata m = take l (drop 16 (avail r))"
proof -
  obtain hdr r1 where 1: "ReadFull r 12 = (hdr, None, r1)"
    using assms(1,3) by (auto simp: Decode_def split: prod.splits option.splits)
  note rd1 = ReadFull_SomeD [OF 1]
  obtain ld r2 where 2: "ReadFull r1 4 = (ld, None, r2)"
    using assms(1,3) by (auto simp: Decode_def 1 Let_def split: prod.splits option.splits)
  note rd2 = ReadFull_SomeD [OF 2]
  have ld: "unat (Uint32 ld) = l" using rd1 rd2 by (simp add: l_def)
  have lim: "within_limit lim l"
    using assms(1,3) by (auto simp: Decode_def 1 2 Let_def ld within_limit_def simp flip: ld split: if_splits)
  obtain d r3 where 3: "ReadFull r2 l = (d, None, r3)"
    using assms(1,3) lim
    by (auto simp: Decode_def 1 2 Let_def ld within_limit_def split: prod.splits option.splits if_splits)
  note rd3 = ReadFull_SomeD [OF 3]
  have "parse_body (m0\<lparr>Header := copy_at (Header m0) 0 hdr, mdata := d\<rparr>) d = (st, m)" and "r' = r3"
    using assms(1,3) lim
    by (auto simp: Decode_def 1 2 3 Let_def ld within_limit_def split: prod.splits option.splits if_splits)
  moreover have "copy_at (Header m0) 0 hdr = hdr"
    using rd1 assms(2) by (intro copy_at_whole) (simp add: wf_header_def)
  ultimately have "Header m = hdr" and "mdata m = d" and "avail r' = drop l (avail r2)"
    using rd3 by (auto dest: parse_body_header)
  with rd1 rd2 rd3 lim show "16 + l \<le> length (avail r)" and "within_limit lim l"
    and "avail r' = drop (16 + l) (avail r)" and "Header m = take 12 (avail r)"
    and "mdata m = take l (drop 16 (avail r))"
    by (auto simp: add.commute)
qed

lemma parse_body_short: "length d < 4 \<Longrightarrow> parse_body m d = (Panic, m)"
  by (simp add: parse_body_def subslice_def)

lemma parse_body_Done_long:
  assumes "parse_body m d = (Done, m')" shows "16 \<le> length d"
  using assms
  by (auto simp: parse_body_def parse_meta_def Let_def subslice_def
      split: option.splits status.splits if_splits prod.splits)

section \<open>Properties\<close>

text \<open>C4: encoding a message always succeeds and decoding the encoded bytes, whatever follows
  them on the stream, gives back header, path, method, payload and metadata, and leaves the
  reader exactly at the first byte after the frame.  The target's own metadata survives a frame
  that carries none.\<close>

theorem Decode_Encode:
  assumes "wf_message m" and "wf_header (Header m0)" and "within_limit lim (length (body m))"
  shows "\<exists>f. Encode m = Some f \<and>
    Decode lim m0 \<lparr>avail = f @ rest, rerr = e\<rparr> =
      (Done, received m m0, \<lparr>avail = rest, rerr = e\<rparr>)"
  using Decode_frame [OF assms] Encode_frame [of m] assms(1) by (simp add: wf_message_def)

theorem Decode_Encode_witness:
  "wf_message sample_message \<and>
   (\<exists>f. Encode sample_message = Some f \<and>
     Decode 100 NewMessage \<lparr>avail = f @ [9], rerr = EOF\<rparr> =
       (Done, received sample_message NewMessage, \<lparr>avail = [9], rerr = EOF\<rparr>))"
  using Decode_Encode [of sample_message NewMessage 100 "[9]" EOF] wf_sample
  by (simp add: within_limit_def)

text \<open>C17: a frame cut off anywhere before its last byte is never accepted: decoding fails with an
  end-of-file error and consumes what there was.\<close>

theorem Decode_truncated:
  assumes "wf_message m" and "n < length (frame m)" and "within_limit lim (length (body m))"
  shows "\<exists>err m' r'. Decode lim m0 \<lparr>avail = take n (frame m), rerr = EOF\<rparr> = (Fail err, m', r') \<and>
    err \<in> {EOF, UnexpectedEOF} \<and> avail r' = []"
proof -
  have wf: "wf_header (Header m)" "length (Header m) = 12" "length (body m) < 2 ^ 32"
    using assms(1) by (simp_all add: wf_message_def wf_header_def)
  show ?thesis
    using wf(1) assms(2)
  proof (cases rule: take_frame_cases)
    case header
    then show ?thesis by (simp add: Decode_def ReadFull_short wf)
  next
    case (lenfield k)
    then show ?thesis by (simp add: Decode_def ReadFull_short wf Let_def)
  next
    case (body k)
    then show ?thesis
      using assms(3) by (auto simp: Decode_def ReadFull_short wf Let_def u32_field.get_put
        unat_of_nat_u32 [OF wf(3)] uint_of_nat_u32 [OF wf(3)] within_limit_def)
  qed
qed

theorem Decode_truncated_witness:
  "within_limit 0 (length (body sample_message)) \<and> 20 < length (frame sample_message) \<and>
   (\<exists>err m' r'. Decode 0 NewMessage \<lparr>avail = take 20 (frame sample_message), rerr = EOF\<rparr> =
      (Fail err, m', r') \<and> err \<in> {EOF, UnexpectedEOF} \<and> avail r' = [])"
proof -
  have "length (frame sample_message) = 67"
    using wf_sample by (simp add: frame_def wf_message_def wf_header_def)
  then show ?thesis
    using Decode_truncated [of sample_message 20 0 NewMessage] wf_sample
    by (simp add: within_limit_def)
qed

text \<open>C22: whenever decoding does not report an error it has consumed exactly sixteen bytes plus
  the length announced in the frame, never more, and that length respected the configured
  limit; the header and raw data of the message are the bytes at those positions.\<close>

theorem Decode_consumes:
  assumes "Decode lim m0 r = (st, m, r')" and "wf_header (Header m0)" and "\<forall>e. st \<noteq> Fail e"
  shows "let l = unat (Uint32 (take 4 (drop 12 (avail r)))) in
    16 + l \<le> length (avail r) \<and> within_limit lim l \<and> avail r' = drop (16 + l) (avail r) \<and>
    Header m = take 12 (avail r) \<and> mdata m = take l (drop 16 (avail r))"
  using Decode_reads [OF assms] by (simp add: Let_def)

theorem Decode_consumes_witness:
  "let r = \<lparr>avail = frame sample_message, rerr = EOF\<rparr>;
       l = unat (Uint32 (take 4 (drop 12 (avail r))))
   in 16 + l \<le> length (avail r) \<and> Header (received sample_message NewMessage) = take 12 (avail r)"
  using Decode_consumes [OF Decode_frame [of sample_message NewMessage 0 "[]" EOF]] wf_sample
  by (simp add: within_limit_def Let_def)

text \<open>C23: a frame whose announced length is under four bytes makes the decoder panic, for any
  such frame and any message it is decoded into.\<close>

theorem Decode_short_frame_panics:
  assumes "length hdr = 12" and "length d < 4" and "lim \<le> 0"
  shows "fst (Decode lim m0 \<lparr>avail = hdr @ field d @ rest, rerr = e\<rparr>) = Panic"
proof -
  have "length d < 2 ^ 32" using assms(2) by simp
  then show ?thesis
    using assms
    by (simp add: Decode_def field_def u32_field.get_put unat_of_nat_u32 Let_def parse_body_short
        split: prod.splits)
qed

theorem Decode_short_frame_panics_witness:
  "fst (Decode 0 NewMessage \<lparr>avail = replicate 12 0 @ field [] @ [], rerr = EOF\<rparr>) = Panic"
  using Decode_short_frame_panics [of "replicate 12 0" "[]" 0 NewMessage "[]" EOF] by simp

end
