(* ===== verification/Codec.thy ===== *)
theory Codec
  imports Message
begin

text \<open>
  \<open>src/error/error.go\<close>, \<open>src/codec/codec.go\<close> and the codec table of \<open>src/core/frpc.go\<close>.  Values of
  Go's \<open>interface{}\<close> that users pass as arguments and replies have the type \<open>'a\<close>; decoding into a
  pointer returns the new contents of what it points to.
\<close>

section \<open>Error texts\<close>

text \<open>\<open>fmt.Sprintf("%v", errs)\<close> of a slice: the elements separated by blanks, in brackets.\<close>

definition bracketed :: "string list \<Rightarrow> string" where
  "bracketed xs = ''['' @ concat (case xs of [] \<Rightarrow> [] | x # xs \<Rightarrow> x # map (\<lambda>y. '' '' @ y) xs) @ '']''"

fun error_text :: "go_error \<Rightarrow> string" where
  "error_text EOF = ''EOF''"
| "error_text UnexpectedEOF = ''unexpected EOF''"
| "error_text (Sentinel s) = s"
| "error_text (NewError s) = s"
| "error_text (ServiceErr s) = s"
| "error_text (MultiErr es) = bracketed (map error_text es)"

definition NewMultiError :: "go_error list \<Rightarrow> go_error" where
  "NewMultiError errors = MultiErr errors"

section \<open>Codecs\<close>

text \<open>
  The serialisers the codecs call: \<open>encoding/json\<close>, \<open>golang/protobuf\<close> and
  \<open>vmihailenco/msgpack\<close>, and the protobuf methods a user type may have.
\<close>

record 'a codec_libs =
  json_Marshal :: "'a \<Rightarrow> go_error + bytes"
  json_Unmarshal :: "bytes \<Rightarrow> 'a \<Rightarrow> 'a \<times> go_error option"
  is_Marshaler :: "'a \<Rightarrow> bool"
  m_Marshal :: "'a \<Rightarrow> go_error + bytes"
  is_Unmarshaler :: "'a \<Rightarrow> bool"
  m_Unmarshal :: "bytes \<Rightarrow> 'a \<Rightarrow> 'a \<times> go_error option"
  is_Message :: "'a \<Rightarrow> bool"
  pb_Marshal :: "'a \<Rightarrow> go_error + bytes"
  pb_Unmarshal :: "bytes \<Rightarrow> 'a \<Rightarrow> 'a \<times> go_error option"
  mp_Marshal :: "'a \<Rightarrow> go_error + bytes"
  mp_Unmarshal :: "bytes \<Rightarrow> 'a \<Rightarrow> 'a \<times> go_error option"
  type_text :: "'a \<Rightarrow> string"

datatype Codec = JSONCodec | PBCodec | MsgpackCodec

definition not_proto :: "'a codec_libs \<Rightarrow> 'a \<Rightarrow> go_error" where
  "not_proto lib i = NewError (type_text lib i @ '' is not a proto.Unmarshaler'')"

definition PBCodec_Encode :: "'a codec_libs \<Rightarrow> 'a \<Rightarrow> go_error + bytes" where
  "PBCodec_Encode lib i =
     (if is_Marshaler lib i then m_Marshal lib i
      else if is_Message lib i then pb_Marshal lib i
      else Inl (not_proto lib i))"

definition PBCodec_Decode :: "'a codec_libs \<Rightarrow> bytes \<Rightarrow> 'a \<Rightarrow> 'a \<times> go_error option" where
  "PBCodec_Decode lib data i =
     (if is_Unmarshaler lib i then m_Unmarshal lib data i
      else if is_Message lib i then pb_Unmarshal lib data i
      else (i, Some (not_proto lib i)))"

definition codec_Encode :: "'a codec_libs \<Rightarrow> Codec \<Rightarrow> 'a \<Rightarrow> go_error + bytes" where
  "codec_Encode lib c i =
     (case c of
        JSONCodec \<Rightarrow> json_Marshal lib i
      | PBCodec \<Rightarrow> PBCodec_Encode lib i
      | MsgpackCodec \<Rightarrow> mp_Marshal lib i)"

definition codec_Decode :: "'a codec_libs \<Rightarrow> Codec \<Rightarrow> bytes \<Rightarrow> 'a \<Rightarrow> 'a \<times> go_error option" where
  "codec_Decode lib c data i =
     (case c of
        JSONCodec \<Rightarrow> json_Unmarshal lib data i
      | PBCodec \<Rightarrow> PBCodec_Decode lib data i
      | MsgpackCodec \<Rightarrow> mp_Unmarshal lib data i)"

definition Codecs :: "SerializeType \<Rightarrow> Codec option" where
  "Codecs t =
     (if t = JSON then Some JSONCodec
      else if t = ProtoBuffer then Some PBCodec
      else if t = MsgPack then Some MsgpackCodec
      else None)"

definition DefaultRPCPath :: string where
  "DefaultRPCPath = ''/_fprc_''"

lemma Codecs_None_iff: "Codecs t = None \<longleftrightarrow> t \<notin> {JSON, ProtoBuffer, MsgPack}"
  by (auto simp: Codecs_def)

text \<open>A concrete instance of the serialisers: values are strings, serialised as their bytes.\<close>

definition store_codec :: "string codec_libs" where
  "store_codec =
     \<lparr>json_Marshal = (\<lambda>s. Inr (StringToByte s)), json_Unmarshal = (\<lambda>b r. (ByteToString b, None)),
      is_Marshaler = (\<lambda>s. False), m_Marshal = (\<lambda>s. Inr []),
      is_Unmarshaler = (\<lambda>s. False), m_Unmarshal = (\<lambda>b r. (r, None)),
      is_Message = (\<lambda>s. True), pb_Marshal = (\<lambda>s. Inr (StringToByte s)),
      pb_Unmarshal = (\<lambda>b r. (ByteToString b, None)),
      mp_Marshal = (\<lambda>s. Inr (StringToByte s)), mp_Unmarshal = (\<lambda>b r. (ByteToString b, None)),
      type_text = (\<lambda>s. ''string'')\<rparr>"

end
