(* ===== verification/Client_Conn.thy ===== *)
theory Client_Conn
  imports Message_Decode Codec
begin

text \<open>
  One connection of \<open>src/client/client.go\<close>: registering and sending requests, the goroutine that
  receives responses, cancelling and closing.  \<open>*Call\<close> values are shared between the caller, the
  table of pending calls and the receive goroutine, so they live in a store and are passed around
  as indices; channels likewise.
\<close>

section \<open>State\<close>

record 'a Call =
  servicePath :: string
  serviceMethod :: string
  metadata :: "strmap option"
  resMetadata :: "strmap option"
  args :: 'a
  reply :: 'a
  call_Error :: "go_error option"
  call_Done :: nat

text \<open>A buffered channel of calls: its capacity and the calls sent to it, oldest first.\<close>

record chan =
  cap :: nat
  sent_calls :: "nat list"

text \<open>\<open>option\<close> of \<open>src/client/option.go\<close>; the TLS configuration and the KCP cipher are opaque handles.\<close>

record client_option =
  serializeType :: SerializeType
  compressType :: CompressType
  readTimeout :: int
  writeTimeout :: int
  connTimeout :: int
  heartbeat_on :: bool
  heartbeatInterval :: int
  rpcPath :: string
  retries :: int
  tlsConfig :: "nat option"
  block :: "nat option"

text \<open>
  The fields of \<open>Client\<close> that belong to its connection, with the store of calls and channels, the
  message pool, and the bytes written to the connection so far.
\<close>

record 'a conn =
  opt :: client_option
  seq :: u64
  pending :: "(u64 \<times> nat) list option"
  closing :: bool
  shutdown :: bool
  calls :: "'a Call list"
  chans :: "chan list"
  pool :: "message list"
  written :: "bytes list"

text \<open>What the client calls outside the program: the serialisers and gzip.\<close>

record ('a, 'w, 'r) libs =
  codec_lib :: "'a codec_libs"
  zip_lib :: "'w gzip_writer"
  unzip_lib :: "'r gzip_reader"

definition ErrShutdown :: go_error where
  "ErrShutdown = Sentinel ''connection is shut down''"

definition ErrUnsupportedCodec :: go_error where
  "ErrUnsupportedCodec = Sentinel ''unsupported codec''"

definition pending_map :: "'a conn \<Rightarrow> (u64 \<times> nat) list" where
  "pending_map w = (case pending w of None \<Rightarrow> [] | Some m \<Rightarrow> m)"

section \<open>Calls and channels\<close>

text \<open>\<open>call.done()\<close>: a send that is dropped when the channel is full.\<close>

definition call_done :: "nat \<Rightarrow> 'a conn \<Rightarrow> 'a conn" where
  "call_done c w =
     (let i = call_Done (calls w ! c); ch = chans w ! i
      in if length (sent_calls ch) < cap ch
         then w\<lparr>chans := (chans w)[i := ch\<lparr>sent_calls := sent_calls ch @ [c]\<rparr>]\<rparr>
         else w)"

definition update_call :: "nat \<Rightarrow> ('a Call \<Rightarrow> 'a Call) \<Rightarrow> 'a conn \<Rightarrow> 'a conn" where
  "update_call c f w = w\<lparr>calls := (calls w)[c := f (calls w ! c)]\<rparr>"

definition fail_call :: "nat \<Rightarrow> go_error \<Rightarrow> 'a conn \<Rightarrow> 'a conn" where
  "fail_call c e w = call_done c (update_call c (\<lambda>x. x\<lparr>call_Error := Some e\<rparr>) w)"

text \<open>\<open>call := client.pending[seq]; delete(client.pending, seq)\<close> under the mutex.\<close>

definition take_pending :: "u64 \<Rightarrow> 'a conn \<Rightarrow> nat option \<times> 'a conn" where
  "take_pending sq w =
     (map_of (pending_map w) sq, w\<lparr>pending := map_option (AList.delete sq) (pending w)\<rparr>)"

section \<open>Sending\<close>

text \<open>
  \<open>send\<close> up to the second \<open>Unlock\<close>: the checks and the registration happen under the mutex.  The
  result is the sequence number given to the call, or \<open>None\<close> when the call was completed with an
  error instead.
\<close>

definition send_register :: "nat \<Rightarrow> 'a conn \<Rightarrow> u64 option \<times> 'a conn" where
  "send_register c w =
     (if shutdown w \<or> closing w then (None, fail_call c ErrShutdown w)
      else
        (case Codecs (serializeType (opt w)) of
           None \<Rightarrow> (None, fail_call c ErrUnsupportedCodec w)
         | Some _ \<Rightarrow>
             (Some (seq w),
              w\<lparr>seq := seq w + 1, pending := Some (AList.update (seq w) c (pending_map w))\<rparr>)))"

text \<open>
  The request message built from a pooled one: a heartbeat when both names are empty, else the
  payload of the call, compressed when it is long and the client is set to compress.  The error is
  that of the codec or of gzip.
\<close>

definition build_request ::
    "('a, 'w, 'r) libs \<Rightarrow> client_option \<Rightarrow> 'a Call \<Rightarrow> u64 \<Rightarrow> message \<Rightarrow> go_error + message" where
  "build_request lib po call sq req =
     (let req = req\<lparr>Header := SetSeq sq (SetMessageType Request (Header req))\<rparr>
      in if servicePath call = '''' \<and> serviceMethod call = ''''
         then Inr (req\<lparr>Header := SetHeartbeat True (Header req)\<rparr>)
         else
           let req = req\<lparr>Header := SetSerializeType (serializeType po) (Header req)\<rparr>;
               req = (if metadata call \<noteq> None then req\<lparr>Metadata := metadata call\<rparr> else req);
               req = req\<lparr>ServicePath := servicePath call, ServiceMethod := serviceMethod call\<rparr>
           in (case codec_Encode (codec_lib lib) (the (Codecs (serializeType po))) (args call) of
                 Inl err \<Rightarrow> Inl err
               | Inr data \<Rightarrow>
                   if length data > 1024 \<and> compressType po = Gzip then
                     (case Zip (zip_lib lib) data of
                        Inl err \<Rightarrow> Inl err
                      | Inr data \<Rightarrow>
                          Inr (req\<lparr>Header := SetCompressType (compressType po) (Header req),
                                Payload := data\<rparr>))
                   else Inr (req\<lparr>Payload := data\<rparr>)))"

text \<open>
  The rest of \<open>send\<close>.  \<open>choice\<close> is the pool's choice; \<open>werr\<close> is the number of bytes written and the
  error, if \<open>conn.Write\<close> fails.  The value stored through \<open>seqKey\<close> is not modelled: no context
  carries that key, since \<open>call\<close> drops the context it builds.  The result is \<open>None\<close> if \<open>Encode\<close> panics.  The test of \<open>IsOneway\<close> reads the message after \<open>FreeMsg\<close> has
  reset it.
\<close>

definition send_transmit ::
    "('a, 'w, 'r) libs \<Rightarrow> nat option \<Rightarrow> (nat \<times> go_error) option \<Rightarrow> nat \<Rightarrow> u64 \<Rightarrow> 'a conn
      \<Rightarrow> 'a conn option" where
  "send_transmit lib choice werr c sq w =
     (let (req, p) = GetMsgs choice (pool w); w = w\<lparr>pool := p\<rparr>
      in (case build_request lib (opt w) (calls w ! c) sq req of
            Inl err \<Rightarrow> Some (fail_call c err w)
          | Inr req \<Rightarrow>
              (case Encode req of
                 None \<Rightarrow> None
               | Some data \<Rightarrow>
                   let w = (case werr of
                              None \<Rightarrow> w\<lparr>written := written w @ [data]\<rparr>
                            | Some (n, err) \<Rightarrow>
                                (case take_pending sq (w\<lparr>written := written w @ [take n data]\<rparr>) of
                                   (None, w) \<Rightarrow> w
                                 | (Some c, w) \<Rightarrow> fail_call c err w));
                       w = w\<lparr>pool := FreeMsg req (pool w)\<rparr>
                   in Some (if IsOneway (Header (Reset req)) then
                              (case take_pending sq w of
                                 (None, w) \<Rightarrow> w
                               | (Some c, w) \<Rightarrow> call_done c w)
                            else w))))"

definition send ::
    "('a, 'w, 'r) libs \<Rightarrow> nat option \<Rightarrow> (nat \<times> go_error) option \<Rightarrow> nat \<Rightarrow> 'a conn \<Rightarrow> 'a conn option" where
  "send lib choice werr c w =
     (case send_register c w of
        (None, w) \<Rightarrow> Some w
      | (Some sq, w) \<Rightarrow> send_transmit lib choice werr c sq w)"

section \<open>Starting and finishing a call\<close>

text \<open>The two context values the client reads.\<close>

record ctx_values =
  ReqMetaDataKey :: "strmap option"
  ResMetaDataKey :: "strmap option"

text \<open>
  \<open>Go\<close> up to its call of \<open>send\<close>: the new call and its channel enter the store.  \<open>done\<close> is the
  caller's channel or \<open>None\<close>; the result is \<open>None\<close> when \<open>log.Panic\<close> ends the call because the
  channel has no buffer.
\<close>

definition new_call ::
    "ctx_values \<Rightarrow> string \<Rightarrow> string \<Rightarrow> 'a \<Rightarrow> 'a \<Rightarrow> nat option \<Rightarrow> 'a conn \<Rightarrow> (nat \<times> 'a conn) option" where
  "new_call ctx path method a r done w =
     (let call = \<lparr>servicePath = path, serviceMethod = method, metadata = ReqMetaDataKey ctx,
                  resMetadata = None, args = a, reply = r, call_Error = None, call_Done = 0\<rparr>
      in (case done of
            None \<Rightarrow>
              Some (length (calls w),
                w\<lparr>calls := calls w @ [call\<lparr>call_Done := length (chans w)\<rparr>],
                  chans := chans w @ [\<lparr>cap = 10, sent_calls = []\<rparr>]\<rparr>)
          | Some i \<Rightarrow>
              if cap (chans w ! i) = 0 then None
              else Some (length (calls w), w\<lparr>calls := calls w @ [call\<lparr>call_Done := i\<rparr>]\<rparr>)))"

definition Go ::
    "('a, 'w, 'r) libs \<Rightarrow> nat option \<Rightarrow> (nat \<times> go_error) option \<Rightarrow> ctx_values \<Rightarrow> string \<Rightarrow> string
      \<Rightarrow> 'a \<Rightarrow> 'a \<Rightarrow> nat option \<Rightarrow> 'a conn \<Rightarrow> (nat \<times> 'a conn) option" where
  "Go lib choice werr ctx path method a r done w =
     (case new_call ctx path method a r done w of
        None \<Rightarrow> None
      | Some (c, w) \<Rightarrow> map_option (\<lambda>w. (c, w)) (send lib choice werr c w))"

text \<open>
  \<open>call\<close> makes a channel of capacity 1 and starts the call; it then waits for the call on that
  channel or for the context to end.  \<open>*seq\<close> is 0 when the context ends first, because nothing
  ever stored into it.
\<close>

definition call_start ::
    "('a, 'w, 'r) libs \<Rightarrow> nat option \<Rightarrow> (nat \<times> go_error) option \<Rightarrow> ctx_values \<Rightarrow> string \<Rightarrow> string
      \<Rightarrow> 'a \<Rightarrow> 'a \<Rightarrow> 'a conn \<Rightarrow> (nat \<times> 'a conn) option" where
  "call_start lib choice werr ctx path method a r w =
     Go lib choice werr ctx path method a r (Some (length (chans w)))
       (w\<lparr>chans := chans w @ [\<lparr>cap = 1, sent_calls = []\<rparr>]\<rparr>)"

definition call_cancel :: "go_error \<Rightarrow> 'a conn \<Rightarrow> go_error option \<times> 'a conn" where
  "call_cancel ctxErr w =
     (case take_pending 0 w of
        (None, w) \<Rightarrow> (Some ctxErr, w)
      | (Some c, w) \<Rightarrow> (Some ctxErr, fail_call c ctxErr w))"

text \<open>The other branch: the error of the call, and the response metadata copied into the context's map.\<close>

definition call_return :: "ctx_values \<Rightarrow> nat \<Rightarrow> 'a conn \<Rightarrow> go_error option \<times> ctx_values" where
  "call_return ctx c w =
     (let call = calls w ! c
      in (call_Error call,
          case (ResMetaDataKey ctx, resMetadata call) of
            (Some meta, Some res) \<Rightarrow>
              ctx\<lparr>ResMetaDataKey := Some (foldl (\<lambda>m (k, v). AList.update k v m) meta res)\<rparr>
          | _ \<Rightarrow> ctx))"

text \<open>
  One tick of \<open>heartbeat\<close>: the goroutine ends (no call) once the connection is closed or shut down, else
  it calls with empty names and nil arguments and waits for the answer.
\<close>

definition heartbeat ::
    "('a, 'w, 'r) libs \<Rightarrow> nat option \<Rightarrow> (nat \<times> go_error) option \<Rightarrow> 'a \<Rightarrow> 'a conn
      \<Rightarrow> (nat option \<times> 'a conn) option" where
  "heartbeat lib choice werr nil w =
     (if shutdown w \<or> closing w then Some (None, w)
      else map_option (\<lambda>(c, w). (Some c, w))
             (call_start lib choice werr \<lparr>ReqMetaDataKey = None, ResMetaDataKey = None\<rparr> '''' '''' nil nil w))"

section \<open>Receiving\<close>

text \<open>
  The default case of the switch in \<open>handleResponse\<close>: the new contents of the reply, the error of
  the call and the value of the loop variable \<open>err\<close>.
\<close>

definition decode_reply ::
    "('a, 'w, 'r) libs \<Rightarrow> message \<Rightarrow> 'a \<Rightarrow> go_error option \<Rightarrow> 'a \<times> go_error option \<times> go_error option" where
  "decode_reply lib res r callErr =
     (let data = Payload res
      in if length data > 0 then
           let (data, callErr, err) =
                 (if CompressType (Header res) = Gzip then
                    (case Unzip (unzip_lib lib) data of
                       Inr data \<Rightarrow> (data, callErr, None)
                     | Inl e \<Rightarrow> ([], Some (ServiceErr (''unzip payload: '' @ error_text e)), Some e))
                  else (data, callErr, None))
           in (case Codecs (SerializeType (Header res)) of
                 None \<Rightarrow> (r, Some (ServiceErr (error_text ErrUnsupportedCodec)), err)
               | Some codec \<Rightarrow>
                   (case codec_Decode (codec_lib lib) codec data r of
                      (r, None) \<Rightarrow> (r, callErr, None)
                    | (r, Some e) \<Rightarrow> (r, Some (ServiceErr (error_text e)), Some e)))
         else (r, callErr, None))"

text \<open>
  One iteration of the receive loop after \<open>Decode\<close> has succeeded: the value of \<open>err\<close> and the
  message buffer for the next iteration, which is not reset on \<open>continue\<close>.
\<close>

definition handle_message ::
    "('a, 'w, 'r) libs \<Rightarrow> message \<Rightarrow> 'a conn \<Rightarrow> go_error option \<times> message \<times> 'a conn" where
  "handle_message lib res w =
     (let h = Header res; sq = Seq h;
          isServerMessage = (MessageType h = Request \<and> \<not> IsHeartbeat h \<and> IsOneway h);
          (call, w) = (if isServerMessage then (None, w) else take_pending sq w)
      in (case call of
            None \<Rightarrow> if isServerMessage then (None, res, w) else (None, Reset res, w)
          | Some c \<Rightarrow>
              if MessageStatusType h = Error then
                let text = (case Metadata res of
                              None \<Rightarrow> '''' | Some m \<Rightarrow> (case map_of m ServiceError of None \<Rightarrow> '''' | Some t \<Rightarrow> t))
                in (None, Reset res,
                    call_done c (update_call c
                      (\<lambda>x. x\<lparr>call_Error := Some (ServiceErr text), resMetadata := Metadata res\<rparr>) w))
              else if IsHeartbeat h then
                (None, Reset res,
                 call_done c (update_call c (\<lambda>x. x\<lparr>resMetadata := Metadata res\<rparr>) w))
              else
                let x = calls w ! c; (r, callErr, err) = decode_reply lib res (reply x) (call_Error x)
                in (err, Reset res,
                    call_done c (update_call c
                      (\<lambda>x. x\<lparr>reply := r, call_Error := callErr, resMetadata := Metadata res\<rparr>) w))))"

text \<open>The loops over the pending table that complete every call in it.\<close>

definition fail_all :: "go_error \<Rightarrow> 'a conn \<Rightarrow> 'a conn" where
  "fail_all err w = foldl (\<lambda>w (sq, c). fail_call c err w) w (pending_map w)"

text \<open>The code after the loop.\<close>

definition handle_end :: "go_error \<Rightarrow> 'a conn \<Rightarrow> 'a conn" where
  "handle_end err w =
     (let w = w\<lparr>shutdown := True\<rparr>;
          err = (if err = EOF then if closing w then ErrShutdown else UnexpectedEOF else err)
      in fail_all err w)"


lemma ReadFull_rest: "ReadFull r n = (b, e, r') \<Longrightarrow> length (avail r') \<le> length (avail r) - (if e = None then n else 0)"
  by (auto simp: ReadFull_def split: if_splits)

lemma Decode_shorter:
  assumes "Decode mx m r = (Done, m', r')"
  shows "length (avail r') < length (avail r)"
proof -
  obtain hdr r1 where 1: "ReadFull r 12 = (hdr, None, r1)"
    using assms by (auto simp: Decode_def split: prod.splits option.splits)
  then have "12 \<le> length (avail r)" "length (avail r1) \<le> length (avail r) - 12"
    using ReadFull_SomeD [OF 1] by simp_all
  moreover have "length (avail r') \<le> length (avail r1)"
    using assms by (auto simp: Decode_def 1 Let_def dest!: ReadFull_rest split: prod.splits option.splits if_splits)
  ultimately show ?thesis by linarith
qed

text \<open>
  The receive goroutine on a connection whose remaining input is \<open>r\<close>.  \<open>None\<close> is a panic: the
  goroutine does not recover, so it ends the process.
\<close>

function handleResponse ::
    "('a, 'w, 'r) libs \<Rightarrow> int \<Rightarrow> message \<Rightarrow> reader \<Rightarrow> 'a conn \<Rightarrow> 'a conn option" where
  "handleResponse lib mx res r w =
     (case Decode mx res r of
        (Panic, _) \<Rightarrow> None
      | (Fail err, _) \<Rightarrow> Some (handle_end err w)
      | (Done, res, r) \<Rightarrow>
          (case handle_message lib res w of
             (None, res, w) \<Rightarrow> handleResponse lib mx res r w
           | (Some err, res, w) \<Rightarrow> Some (handle_end err w)))"
  by pat_completeness auto
termination
  by (relation "measure (\<lambda>(lib, mx, res, r, w). length (avail r))") (auto dest: Decode_shorter sym)

declare handleResponse.simps [simp del]

section \<open>Closing\<close>

text \<open>
  \<open>close\<close>: every pending call is completed and removed; \<open>cerr\<close> is the result of closing the
  network connection.
\<close>

definition close_conn :: "go_error option \<Rightarrow> 'a conn \<Rightarrow> go_error option \<times> 'a conn" where
  "close_conn cerr w =
     (let w = fail_all ErrShutdown w;
          w = w\<lparr>pending := map_option (\<lambda>m. []) (pending w)\<rparr>
      in if closing w \<or> shutdown w then (Some ErrShutdown, w)
         else (cerr, w\<lparr>closing := True\<rparr>))"

section \<open>A concrete instance of the library parameters\<close>

text \<open>The serialisers of \<open>store_codec\<close>, and a compressor that stores.\<close>

definition store_libs :: "(string, bytes, bytes) libs" where
  "store_libs =
     \<lparr>codec_lib = store_codec,
      zip_lib = \<lparr>gz_NewWriter = [], gz_Write = (\<lambda>b w. (None, w @ b)), gz_Flush = (\<lambda>w. (None, w)),
                 gz_Close = (\<lambda>w. (None, w)), gz_Bytes = (\<lambda>w. w)\<rparr>,
      unzip_lib = \<lparr>gz_NewReader = (\<lambda>b. Inr b), gz_ReadAll = (\<lambda>r. Inr r)\<rparr>\<rparr>"

definition sample_option :: client_option where
  "sample_option =
     \<lparr>serializeType = MsgPack, compressType = CompressNone, readTimeout = 0, writeTimeout = 0,
      connTimeout = 0, heartbeat_on = False, heartbeatInterval = 0, rpcPath = '''', retries = 3,
      tlsConfig = None, block = None\<rparr>"

end
