(* ===== verification/Client_Connect.thy ===== *)
theory Client_Connect
  imports Client_Conn Go_Strings
begin

text \<open>
  \<open>src/client/option.go\<close>, \<open>connection.go\<close>, \<open>connection_kcp.go\<close> and \<open>connection_quic.go\<close>: the options of a
  client and how it opens a connection.  The network is the argument \<open>net\<close>; an open connection is
  the number the network gives it.
\<close>

section \<open>Options\<close>

definition empty_option :: client_option where
  "empty_option =
     \<lparr>serializeType = 0, compressType = 0, readTimeout = 0, writeTimeout = 0, connTimeout = 0,
      heartbeat_on = False, heartbeatInterval = 0, rpcPath = '''', retries = 0, tlsConfig = None,
      block = None\<rparr>"

definition Serialize :: "SerializeType \<Rightarrow> client_option \<Rightarrow> client_option" where
  "Serialize t c = c\<lparr>serializeType := t\<rparr>"

definition Compress :: "CompressType \<Rightarrow> client_option \<Rightarrow> client_option" where
  "Compress t c = c\<lparr>compressType := t\<rparr>"

definition ReadTimeout :: "int \<Rightarrow> client_option \<Rightarrow> client_option" where
  "ReadTimeout timeout c = c\<lparr>readTimeout := timeout\<rparr>"

definition WriteTimeout :: "int \<Rightarrow> client_option \<Rightarrow> client_option" where
  "WriteTimeout timeout c = c\<lparr>writeTimeout := timeout\<rparr>"

definition ConnTimeout :: "int \<Rightarrow> client_option \<Rightarrow> client_option" where
  "ConnTimeout timeout c = c\<lparr>readTimeout := timeout\<rparr>"

definition Heartbeat :: "bool \<Rightarrow> int \<Rightarrow> client_option \<Rightarrow> client_option" where
  "Heartbeat isHearBeat interval c = c\<lparr>heartbeat_on := isHearBeat, heartbeatInterval := interval\<rparr>"

definition RpcPath :: "string \<Rightarrow> client_option \<Rightarrow> client_option" where
  "RpcPath path c = c\<lparr>rpcPath := path\<rparr>"

definition Retries :: "int \<Rightarrow> client_option \<Rightarrow> client_option" where
  "Retries n c = c\<lparr>retries := n\<rparr>"

definition WithBlock :: "nat \<Rightarrow> client_option \<Rightarrow> client_option" where
  "WithBlock kc c = c\<lparr>block := Some kc\<rparr>"

definition WithTls :: "nat \<Rightarrow> client_option \<Rightarrow> client_option" where
  "WithTls tls c = c\<lparr>tlsConfig := Some tls\<rparr>"

text \<open>The options \<open>NewClient\<close> sets; durations are nanoseconds.\<close>

definition second :: int where
  "second = 1000000000"

definition NewClient_option :: client_option where
  "NewClient_option =
     Retries 3 (Compress CompressNone (Serialize MsgPack (ConnTimeout (10 * second) empty_option)))"

section \<open>Connections\<close>

text \<open>
  The network: dialling with a timeout (0 for none), the KCP and QUIC dialers, and the status of
  the HTTP response that a connection delivers after the \<open>CONNECT\<close> request.
\<close>

record network =
  net_DialTimeout :: "string \<Rightarrow> string \<Rightarrow> int \<Rightarrow> go_error + nat"
  net_kcp :: "string \<Rightarrow> nat \<Rightarrow> go_error + nat"
  net_quic :: "string \<Rightarrow> nat option \<Rightarrow> go_error + nat"
  net_ReadResponse :: "nat \<Rightarrow> string \<Rightarrow> go_error + string"

definition connected :: string where
  "connected = ''200 Connected to frpc''"

text \<open>\<open>net.OpError\<close> with neither source nor address, as its text.\<close>

definition OpError :: "string \<Rightarrow> string \<Rightarrow> go_error \<Rightarrow> go_error" where
  "OpError op n err = NewError (op @ '' '' @ n @ '': '' @ error_text err)"

definition newHttpConn :: "network \<Rightarrow> client_option \<Rightarrow> string \<Rightarrow> string \<Rightarrow> go_error + nat" where
  "newHttpConn net client n address =
     (let path = (if rpcPath client = '''' then DefaultRPCPath else rpcPath client)
      in (case net_DialTimeout net ''tcp'' address (connTimeout client) of
            Inl err \<Rightarrow> Inl err
          | Inr conn \<Rightarrow>
              (case net_ReadResponse net conn (''CONNECT '' @ path @ '' HTTP/1.0'' @ [CHR 0x0A, CHR 0x0A]) of
                 Inr status \<Rightarrow>
                   if status = connected then Inr conn
                   else Inl (OpError ''dial-http'' (n @ '' '' @ address)
                          (NewError (''unexpected HTTP response: '' @ status)))
               | Inl err \<Rightarrow> Inl (OpError ''dial-http'' (n @ '' '' @ address) err))))"

definition newDirectConn :: "network \<Rightarrow> client_option \<Rightarrow> string \<Rightarrow> string \<Rightarrow> go_error + nat" where
  "newDirectConn net client n address = net_DialTimeout net n address (connTimeout client)"

text \<open>The type assertion on \<open>option.block\<close> panics when no cipher was given.\<close>

definition newKcpConn :: "network \<Rightarrow> client_option \<Rightarrow> string \<Rightarrow> string \<Rightarrow> (go_error + nat) option" where
  "newKcpConn net c n address = map_option (net_kcp net address) (block c)"

text \<open>Without a configuration the code uses one that skips verification, here \<open>None\<close>.\<close>

definition newQuicConn :: "network \<Rightarrow> client_option \<Rightarrow> string \<Rightarrow> string \<Rightarrow> go_error + nat" where
  "newQuicConn net client n address = net_quic net address (tlsConfig client)"

text \<open>A connection in use: its deadlines and whether a heartbeat goroutine runs.\<close>

record open_conn =
  oc_conn :: nat
  oc_read_deadline :: "int option"
  oc_write_deadline :: "int option"
  oc_heartbeat :: bool

definition dial :: "network \<Rightarrow> client_option \<Rightarrow> string \<Rightarrow> string \<Rightarrow> (go_error + nat) option" where
  "dial net c n address =
     (if n = ''http'' then Some (newHttpConn net c n address)
      else if n = ''kcp'' then newKcpConn net c n address
      else if n = ''quic'' then Some (newQuicConn net c n address)
      else Some (newDirectConn net c n address))"

definition Connect ::
    "network \<Rightarrow> int \<Rightarrow> client_option \<Rightarrow> string \<Rightarrow> string \<Rightarrow> (go_error + open_conn) option" where
  "Connect net now c n address =
     (case dial net c n address of
        None \<Rightarrow> None
      | Some (Inl err) \<Rightarrow> Some (Inl err)
      | Some (Inr conn) \<Rightarrow>
          Some (Inr \<lparr>oc_conn = conn,
            oc_read_deadline = (if readTimeout c \<noteq> 0 then Some (now + readTimeout c) else None),
            oc_write_deadline = (if writeTimeout c \<noteq> 0 then Some (now + writeTimeout c) else None),
            oc_heartbeat = (heartbeat_on c \<and> heartbeatInterval c > 0)\<rparr>))"

definition splitNetworkAndAddress :: "string \<Rightarrow> string \<times> string" where
  "splitNetworkAndAddress server =
     (let ss = SplitN2 server (CHR ''@'')
      in if length ss = 1 then (''tcp'', server) else (ss ! 0, ss ! 1))"

section \<open>Properties\<close>

text \<open>Addresses split as they are joined: a network name without \<open>@\<close>, an \<open>@\<close> and any address give
  that network and that address back, and an address without \<open>@\<close> is a TCP address.\<close>

lemma splitNetworkAndAddress_join:
  assumes "CHR ''@'' \<notin> set n"
  shows "splitNetworkAndAddress (n @ CHR ''@'' # a) = (n, a) \<and> splitNetworkAndAddress n = (''tcp'', n)"
  using assms SplitN2_join [OF assms, of a] by (simp add: splitNetworkAndAddress_def SplitN2_def)

text \<open>The default client mixes up its timeouts.  \<open>ConnTimeout\<close> stores into the read timeout, so a
  client as \<open>NewClient\<close> makes it dials without any timeout, and every connection it opens over TCP
  carries a read deadline ten seconds after dialling that is never moved: the receive loop is cut
  off then, whether or not calls are in progress.\<close>

lemma NewClient_deadline:
  assumes "n \<notin> {''http'', ''kcp'', ''quic''}"
  shows "Connect net now NewClient_option n address =
    Some (map_sum id (\<lambda>conn. \<lparr>oc_conn = conn, oc_read_deadline = Some (now + 10 * second),
      oc_write_deadline = None, oc_heartbeat = False\<rparr>) (net_DialTimeout net n address 0))"
  using assms
  by (auto simp: Connect_def dial_def newDirectConn_def NewClient_option_def ConnTimeout_def Serialize_def
      Compress_def Retries_def empty_option_def second_def split: sum.splits)

end
