(* ===== verification/Breaker.thy ===== *)
theory Breaker
  imports Frpc_Prelude
begin

text \<open>
  \<open>src/circuit/breaker.go\<close> and \<open>breaker_simple.go\<close>: the \<open>Breaker\<close> interface as a contract, and the
  breaker with a failure threshold.  Times and durations are nanoseconds, times counted from Go's
  zero time; a breaker is used by one call at a time.
\<close>

definition ErrBreakerOpen :: go_error where
  "ErrBreakerOpen = Sentinel ''breaker open''"

definition ErrBreakerTimeout :: go_error where
  "ErrBreakerTimeout = Sentinel ''breaker time out''"

lemma breaker_errors_differ [simp]: "ErrBreakerOpen \<noteq> ErrBreakerTimeout"
  by (simp add: ErrBreakerOpen_def ErrBreakerTimeout_def)

text \<open>\<open>t.Sub(u)\<close>, which saturates at the range of \<open>time.Duration\<close>.\<close>

definition time_Sub :: "int \<Rightarrow> int \<Rightarrow> int" where
  "time_Sub t u = max (- (2 ^ 63)) (min (2 ^ 63 - 1) (t - u))"

section \<open>The interface\<close>

text \<open>
  A protected function acts on the caller's state \<open>'w\<close>.  \<open>'env\<close> is what one call sees of its
  surroundings: the clock, and whether the timer fires before the function returns.  When it does
  the function still runs to its end in its own goroutine.
\<close>

type_synonym 'w protected = "'w \<Rightarrow> go_error option \<times> 'w"

locale breaker =
  fixes Call :: "'env \<Rightarrow> 'w protected \<Rightarrow> int \<Rightarrow> 'b \<Rightarrow> 'w \<Rightarrow> go_error option \<times> 'b \<times> 'w"
    and is_open :: "'env \<Rightarrow> 'b \<Rightarrow> bool"
    and timer_first :: "'env \<Rightarrow> bool"
  assumes open_skips: "is_open env b \<Longrightarrow> Call env fn d b w = (Some ErrBreakerOpen, b, w)"
    and closed_runs: "\<not> is_open env b \<Longrightarrow> Call env fn d b w = (err, b', w') \<Longrightarrow>
      w' = snd (fn w) \<and>
      err = (if d \<noteq> 0 \<and> timer_first env then Some ErrBreakerTimeout else fst (fn w))"
begin

lemma nil_means_success:
  "Call env fn d b w = (None, b', w') \<Longrightarrow> fst (fn w) = None \<and> w' = snd (fn w)"
  using open_skips [of env b fn d w] closed_runs [of env b fn d w None b' w']
  by (cases "is_open env b") (auto split: if_splits)

lemma runs_at_most_once:
  "Call env fn d b w = (err, b', w') \<Longrightarrow> w' = w \<or> w' = snd (fn w)"
  using open_skips [of env b fn d w] closed_runs [of env b fn d w err b' w']
  by (cases "is_open env b") auto

end

section \<open>SimpleCircuitBreaker\<close>

record SimpleCircuitBreaker =
  lastFailureTime :: int
  failures :: u64
  failureThreshold :: u64
  window :: int

text \<open>The clock readings of one call: in \<open>ready\<close>, in its \<open>reset\<close>, and after the function.\<close>

record simple_env =
  t_ready :: int
  t_reset :: int
  t_end :: int
  simple_timer :: bool

definition NewSimpleCircuitBreaker :: "u64 \<Rightarrow> int \<Rightarrow> SimpleCircuitBreaker" where
  "NewSimpleCircuitBreaker threshold win =
     \<lparr>lastFailureTime = 0, failures = 0, failureThreshold = threshold, window = win\<rparr>"

definition simple_reset :: "int \<Rightarrow> SimpleCircuitBreaker \<Rightarrow> SimpleCircuitBreaker" where
  "simple_reset now cb = cb\<lparr>failures := 0, lastFailureTime := now\<rparr>"

definition simple_success :: "int \<Rightarrow> SimpleCircuitBreaker \<Rightarrow> SimpleCircuitBreaker" where
  "simple_success now cb = simple_reset now cb"

definition simple_fail :: "int \<Rightarrow> SimpleCircuitBreaker \<Rightarrow> SimpleCircuitBreaker" where
  "simple_fail now cb = cb\<lparr>failures := failures cb + 1, lastFailureTime := now\<rparr>"

definition simple_ready :: "simple_env \<Rightarrow> SimpleCircuitBreaker \<Rightarrow> bool \<times> SimpleCircuitBreaker" where
  "simple_ready env cb =
     (if time_Sub (t_ready env) (lastFailureTime cb) > window cb then (True, simple_reset (t_reset env) cb)
      else (failures cb < failureThreshold cb, cb))"

definition simple_Call ::
    "simple_env \<Rightarrow> 'w protected \<Rightarrow> int \<Rightarrow> SimpleCircuitBreaker \<Rightarrow> 'w
      \<Rightarrow> go_error option \<times> SimpleCircuitBreaker \<times> 'w" where
  "simple_Call env fn d cb w =
     (let (ready, cb) = simple_ready env cb
      in if \<not> ready then (Some ErrBreakerOpen, cb, w)
         else
           let (e, w) = fn w;
               err = (if d = 0 then e else if simple_timer env then Some ErrBreakerTimeout else e)
           in (err, if err = None then simple_success (t_end env) cb else simple_fail (t_end env) cb, w))"

definition simple_open :: "simple_env \<Rightarrow> SimpleCircuitBreaker \<Rightarrow> bool" where
  "simple_open env cb \<longleftrightarrow>
     time_Sub (t_ready env) (lastFailureTime cb) \<le> window cb \<and> failureThreshold cb \<le> failures cb"

interpretation simple: breaker simple_Call simple_open simple_timer
  by unfold_locales
    (auto simp: simple_Call_def simple_open_def simple_ready_def Let_def not_le split: prod.splits if_splits)

section \<open>Opening and recovering\<close>

text \<open>Successive calls of one function, oldest first.\<close>

primrec simple_calls ::
    "'w protected \<Rightarrow> int \<Rightarrow> simple_env list \<Rightarrow> SimpleCircuitBreaker \<Rightarrow> 'w
      \<Rightarrow> go_error option list \<times> SimpleCircuitBreaker \<times> 'w" where
  "simple_calls fn d [] cb w = ([], cb, w)"
| "simple_calls fn d (env # envs) cb w =
     (let (e, cb, w) = simple_Call env fn d cb w; (es, cb, w) = simple_calls fn d envs cb w
      in (e # es, cb, w))"

text \<open>Every call starts within the window of the end of the one before.\<close>

primrec within_window :: "int \<Rightarrow> int \<Rightarrow> simple_env list \<Rightarrow> bool" where
  "within_window win t [] = True"
| "within_window win t (env # envs) \<longleftrightarrow>
     time_Sub (t_ready env) t \<le> win \<and> within_window win (t_end env) envs"

definition last_end :: "int \<Rightarrow> simple_env list \<Rightarrow> int" where
  "last_end t envs = (if envs = [] then t else t_end (last envs))"

lemma simple_Call_fails:
  assumes "time_Sub (t_ready env) (lastFailureTime cb) \<le> window cb"
    and "failures cb < failureThreshold cb" and "fst (fn w) \<noteq> None"
  shows "\<exists>e. simple_Call env fn d cb w = (Some e, simple_fail (t_end env) cb, snd (fn w))"
  using assms by (auto simp: simple_Call_def simple_ready_def Let_def split: prod.splits)

lemma Suc_unat_if_less:
  assumes "(x :: u64) < y"
  shows "unat (x + 1) = Suc (unat x)"
proof -
  have "unat y < 2 ^ LENGTH(64)" by (rule unsigned_less)
  moreover have "unat x < unat y" using assms by (simp add: word_less_nat_alt)
  ultimately have "unat x + 1 < 2 ^ LENGTH(64)" by linarith
  then show ?thesis by (simp add: unat_word_ariths)
qed

lemma simple_calls_fail:
  assumes "\<And>w. fst (fn w) \<noteq> None" and "within_window (window cb) (lastFailureTime cb) envs"
    and "unat (failures cb) + length envs \<le> unat (failureThreshold cb)"
    and "simple_calls fn d envs cb w = (es, cb', w')"
  shows "None \<notin> set es \<and> unat (failures cb') = unat (failures cb) + length envs \<and>
    failureThreshold cb' = failureThreshold cb \<and> window cb' = window cb \<and>
    lastFailureTime cb' = last_end (lastFailureTime cb) envs"
  using assms(2-4)
proof (induction envs arbitrary: cb w es)
  case Nil
  then show ?case by (simp add: last_end_def)
next
  case (Cons env envs)
  have less: "failures cb < failureThreshold cb"
    using Cons.prems(2) by (simp add: word_less_nat_alt)
  then have suc: "unat (failures cb + 1) = Suc (unat (failures cb))"
    by (metis Suc_unat_if_less)
  define cb1 where "cb1 = simple_fail (t_end env) cb"
  obtain e where call: "simple_Call env fn d cb w = (Some e, cb1, snd (fn w))"
    using simple_Call_fails [OF _ less assms(1)] Cons.prems(1) unfolding cb1_def by fastforce
  obtain es1 where rest: "simple_calls fn d envs cb1 (snd (fn w)) = (es1, cb', w')" "es = Some e # es1"
    using Cons.prems(3) call by (auto split: prod.splits)
  have "None \<notin> set es1 \<and> unat (failures cb') = unat (failures cb1) + length envs \<and>
      failureThreshold cb' = failureThreshold cb1 \<and> window cb' = window cb1 \<and>
      lastFailureTime cb' = last_end (lastFailureTime cb1) envs"
    using Cons.prems(1,2) rest(1) suc by (intro Cons.IH [of cb1]) (simp_all add: cb1_def simple_fail_def)
  then show ?case
    using suc rest(2) by (auto simp: cb1_def simple_fail_def last_end_def)
qed

text \<open>C10: The breaker opens at its threshold.  When a function keeps failing, the calls follow each
  other within the window and as many failures as the threshold have been recorded, the next call
  within the window returns \<open>ErrBreakerOpen\<close> without running the function and without any change
  to the breaker.\<close>

theorem simple_breaker_opens:
  assumes "\<And>w. fst (fn w) \<noteq> None" and "within_window (window cb) (lastFailureTime cb) envs"
    and "unat (failures cb) + length envs = unat (failureThreshold cb)"
    and "simple_calls fn d envs cb w = (es, cb', w')"
    and "time_Sub (t_ready env) (last_end (lastFailureTime cb) envs) \<le> window cb"
  shows "None \<notin> set es \<and> simple_Call env fn d cb' w' = (Some ErrBreakerOpen, cb', w')"
proof -
  note run = simple_calls_fail [OF assms(1,2) _ assms(4)]
  have "simple_open env cb'"
    using run assms(3,5) by (simp add: simple_open_def word_le_nat_alt)
  then show ?thesis using run assms(3) simple.open_skips by simp
qed

theorem simple_breaker_opens_witness:
  "simple_Call \<lparr>t_ready = 8, t_reset = 8, t_end = 9, simple_timer = False\<rparr>
     (\<lambda>n. (Some (NewError ''down''), n + 1)) 0
     \<lparr>lastFailureTime = 7, failures = 2, failureThreshold = 2, window = 10\<rparr> (2 :: nat) =
   (Some ErrBreakerOpen, \<lparr>lastFailureTime = 7, failures = 2, failureThreshold = 2, window = 10\<rparr>, 2)"
proof -
  let ?fn = "\<lambda>n :: nat. (Some (NewError ''down''), n + 1)"
  let ?cb = "\<lparr>lastFailureTime = 1, failures = 0, failureThreshold = 2, window = 10\<rparr>"
  let ?envs = "[\<lparr>t_ready = 2, t_reset = 2, t_end = 3, simple_timer = False\<rparr>,
     \<lparr>t_ready = 5, t_reset = 5, t_end = 7, simple_timer = False\<rparr>]"
  have "simple_calls ?fn 0 ?envs ?cb 0 = ([Some (NewError ''down''), Some (NewError ''down'')],
      \<lparr>lastFailureTime = 7, failures = 2, failureThreshold = 2, window = 10\<rparr>, 2)"
    by (simp add: simple_Call_def simple_ready_def simple_fail_def time_Sub_def)
  then show ?thesis
    using simple_breaker_opens [of ?fn ?cb ?envs 0 0]
    by (simp add: time_Sub_def last_end_def)
qed

text \<open>The breaker recovers.  A call that starts later than the window after the last recorded
  event runs the function whatever was counted before; if the function succeeds in time no failure
  is left, and if it does not exactly one is recorded, so a single failure after a pause never
  reopens a breaker with a threshold above 1.\<close>

lemma simple_breaker_recovers:
  assumes "time_Sub (t_ready env) (lastFailureTime cb) > window cb"
    and "simple_Call env fn d cb w = (err, cb', w')"
  shows "w' = snd (fn w) \<and> failures cb' = (if err = None then 0 else 1) \<and>
    lastFailureTime cb' = t_end env"
  using assms
  by (auto simp: simple_Call_def simple_ready_def simple_reset_def simple_success_def simple_fail_def
      Let_def split: prod.splits if_splits)

end
