(* ===== verification/Client_Pool.thy ===== *)
theory Client_Pool
  imports Client_Connect Selector_New Breaker
begin

text \<open>
  The client that calls a service by name (\<open>src/client/client.go\<close>, \<open>client_controller.go\<close>,
  \<open>client_registry.go\<close> and the fail modes \<open>failmod*.go\<close>): it selects a server, keeps one connection per
  server, and handles failed calls according to its fail mode.  The clients it creates for single
  connections are entries of a store, numbered in the order of their creation.
\<close>

section \<open>State and surroundings\<close>

text \<open>What matters here of a client made for one connection.\<close>

record sub_client =
  sc_closing :: bool
  sc_shutdown :: bool

text \<open>
  The fail modes.  \<open>newFailFastMod\<close> and the other constructors return pointers, so the value in the
  interface has the dynamic type \<open>*FailFastMod\<close> and the assertion \<open>failMode.(FailFastMod)\<close> in
  \<open>Call\<close> fails for all of them.
\<close>

datatype failMod = PtrFailFastMod | PtrFailOverMod | PtrFailTryMod

type_synonym FailMode = int

definition Mode_FailFast :: FailMode where "Mode_FailFast = 0"
definition Mode_FailOver :: FailMode where "Mode_FailOver = 1"
definition Mode_FailTry :: FailMode where "Mode_FailTry = 2"

definition newFailMod :: "FailMode \<Rightarrow> failMod" where
  "newFailMod failMode =
     (if failMode = Mode_FailFast then PtrFailFastMod
      else if failMode = Mode_FailOver then PtrFailOverMod
      else if failMode = Mode_FailTry then PtrFailTryMod
      else PtrFailFastMod)"

definition is_FailFastMod :: "failMod \<Rightarrow> bool" where
  "is_FailFastMod m = False"

record xclient =
  xopt :: client_option
  cachedClient :: "(string \<times> nat) list"
  subs :: "sub_client list"
  xselector :: "Selector option"
  xfailMode :: failMod
  has_discovery :: bool
  xservicePath :: string
  xshutdown :: bool
  servers :: "strmap option"
  watching :: bool
  clock :: nat

text \<open>
  The surroundings of the \<open>clock\<close>-th interaction: the result of opening a connection to an address,
  what \<open>CallDirect\<close> on a connection returns and does to the connection's flags, the number the
  random generator draws, and the ping outcomes.
\<close>

record 'a xenv =
  x_connect :: "nat \<Rightarrow> string \<Rightarrow> string \<Rightarrow> go_error option"
  x_direct :: "nat \<Rightarrow> nat \<Rightarrow> sub_client \<Rightarrow> go_error option \<times> sub_client"
  x_random :: "nat \<Rightarrow> u32"
  x_ping :: "string \<Rightarrow> ping_outcome"
  x_fmt :: "'a \<Rightarrow> string"

definition ErrClientNoServer :: go_error where
  "ErrClientNoServer = Sentinel ''can not found any server''"

definition tick :: "xclient \<Rightarrow> xclient" where
  "tick c = c\<lparr>clock := Suc (clock c)\<rparr>"

section \<open>Connections by server\<close>

text \<open>
  \<open>getCachedClient\<close>: the second look under the write lock only tests for nil, so a client found dead
  by the first look is returned all the same.
\<close>

definition getCachedClient :: "'a xenv \<Rightarrow> string \<Rightarrow> xclient \<Rightarrow> (nat option \<times> go_error option) \<times> xclient" where
  "getCachedClient env cname c =
     (case map_of (cachedClient c) cname of
        Some i \<Rightarrow>
          if \<not> sc_closing (subs c ! i) \<and> \<not> sc_shutdown (subs c ! i) then ((Some i, None), c)
          else ((Some i, None), c)
      | None \<Rightarrow>
          let (n, addr) = splitNetworkAndAddress cname
          in (case x_connect env (clock c) n addr of
                Some err \<Rightarrow> ((None, Some err), tick c)
              | None \<Rightarrow>
                  let i = length (subs c)
                  in ((Some i, None),
                      (tick c)\<lparr>subs := subs c @ [\<lparr>sc_closing = False, sc_shutdown = False\<rparr>],
                        cachedClient := AList.update cname i (cachedClient c)\<rparr>)))"

definition selectClient ::
    "'a xenv \<Rightarrow> 'a request \<Rightarrow> xclient \<Rightarrow> (string \<times> nat option \<times> go_error option) \<times> xclient" where
  "selectClient env rq c =
     (let (cname, sel) = Select (x_fmt env) (rq\<lparr>rq_random := x_random env (clock c)\<rparr>) (the (xselector c));
          c = (tick c)\<lparr>xselector := Some sel\<rparr>
      in if cname = '''' then (('''', None, Some ErrClientNoServer), c)
         else
           let ((client, err), c) = getCachedClient env cname c in ((cname, client, err), c))"

text \<open>
  \<open>removeClient\<close> calls \<open>Close\<close> on the connection's client, not \<open>close\<close>: this sets its \<open>shutdown\<close> flag and
  leaves its socket and its pending calls alone; and since the client was made with a copy of the
  registry fields, the goroutine in \<open>Close\<close> unregisters and closes the channel of the caller's own
  watch.
\<close>

definition removeClient :: "string \<Rightarrow> nat option \<Rightarrow> xclient \<Rightarrow> xclient" where
  "removeClient cname client c =
     (let c = (if map_of (cachedClient c) cname = client
               then c\<lparr>cachedClient := AList.delete cname (cachedClient c)\<rparr> else c)
      in (case client of
            None \<Rightarrow> c
          | Some i \<Rightarrow> c\<lparr>subs := (subs c)[i := (subs c ! i)\<lparr>sc_shutdown := True\<rparr>], watching := False\<rparr>))"

text \<open>\<open>client.CallDirect\<close>; a nil client panics.\<close>

definition direct :: "'a xenv \<Rightarrow> nat \<Rightarrow> xclient \<Rightarrow> go_error option \<times> xclient" where
  "direct env i c =
     (let (err, s) = x_direct env (clock c) i (subs c ! i) in (err, (tick c)\<lparr>subs := (subs c)[i := s]\<rparr>))"

section \<open>Fail modes\<close>

fun is_ServiceError :: "go_error \<Rightarrow> bool" where
  "is_ServiceError (ServiceErr s) = True"
| "is_ServiceError _ = False"

definition FailFast_Call :: "'a xenv \<Rightarrow> nat option \<Rightarrow> string \<Rightarrow> xclient \<Rightarrow> (go_error option \<times> xclient) option" where
  "FailFast_Call env client cname c =
     (case client of
        None \<Rightarrow> None
      | Some i \<Rightarrow>
          let (err, c) = direct env i c
          in Some (err, case err of
                          None \<Rightarrow> c
                        | Some e \<Rightarrow> if is_ServiceError e then c else removeClient cname client c))"

text \<open>
  The first half of the loop bodies of \<open>FailOverMod.Call\<close> and \<open>FailTryMod.Call\<close>: try the client, if
  there is one; the flag says that the call succeeded and the loop returns.
\<close>

definition attempt ::
    "'a xenv \<Rightarrow> nat option \<Rightarrow> go_error option \<Rightarrow> xclient \<Rightarrow> bool \<times> go_error option \<times> xclient" where
  "attempt env client err c =
     (case client of
        None \<Rightarrow> (False, err, c)
      | Some i \<Rightarrow> (let (err, c) = direct env i c in (err = None, err, c)))"

text \<open>The loops, with the number of retries left as the recursion argument.\<close>

fun FailOver_loop ::
    "'a xenv \<Rightarrow> 'a request \<Rightarrow> nat \<Rightarrow> nat option \<Rightarrow> string \<Rightarrow> go_error option \<Rightarrow> xclient
      \<Rightarrow> go_error option \<times> xclient" where
  "FailOver_loop env rq 0 client cname err c = (err, c)"
| "FailOver_loop env rq (Suc n) client cname err c =
     (let (done, err, c) = attempt env client err c
      in if done then (None, c)
         else
           let c = removeClient cname client c;
               ((cname, client, err), c) = selectClient env rq c
           in FailOver_loop env rq n client cname err c)"

fun FailTry_loop ::
    "'a xenv \<Rightarrow> nat \<Rightarrow> nat option \<Rightarrow> string \<Rightarrow> go_error option \<Rightarrow> xclient \<Rightarrow> go_error option \<times> xclient"
where
  "FailTry_loop env 0 client cname err c = (err, c)"
| "FailTry_loop env (Suc n) client cname err c =
     (let (done, err, c) = attempt env client err c
      in if done then (None, c)
         else
           let c = removeClient cname client c;
               ((client, err), c) = getCachedClient env cname c
           in FailTry_loop env n client cname err c)"

definition FailOver_Call ::
    "'a xenv \<Rightarrow> 'a request \<Rightarrow> int \<Rightarrow> nat option \<Rightarrow> string \<Rightarrow> xclient \<Rightarrow> go_error option \<times> xclient" where
  "FailOver_Call env rq n client cname c = FailOver_loop env rq (nat n) client cname None c"

definition FailTry_Call ::
    "'a xenv \<Rightarrow> int \<Rightarrow> nat option \<Rightarrow> string \<Rightarrow> xclient \<Rightarrow> go_error option \<times> xclient" where
  "FailTry_Call env n client cname c = FailTry_loop env (nat n) client cname None c"

definition failMode_Call ::
    "'a xenv \<Rightarrow> 'a request \<Rightarrow> nat option \<Rightarrow> string \<Rightarrow> xclient \<Rightarrow> (go_error option \<times> xclient) option" where
  "failMode_Call env rq client cname c =
     (case xfailMode c of
        PtrFailFastMod \<Rightarrow> FailFast_Call env client cname c
      | PtrFailOverMod \<Rightarrow> Some (FailOver_Call env rq (retries (xopt c)) client cname c)
      | PtrFailTryMod \<Rightarrow> Some (FailTry_Call env (retries (xopt c)) client cname c))"

section \<open>The client's own operations\<close>

text \<open>\<open>Selector\<close> builds from the servers known now; on a nil map it logs and goes on.\<close>

definition set_Selector :: "'a xenv \<Rightarrow> SelectMode \<Rightarrow> xclient \<Rightarrow> xclient option" where
  "set_Selector env mode c =
     map_option (\<lambda>sel. c\<lparr>xselector := Some sel\<rparr>)
       (NewSelector (x_ping env) mode (case servers c of None \<Rightarrow> [] | Some m \<Rightarrow> m))"

definition set_FailMode :: "FailMode \<Rightarrow> xclient \<Rightarrow> xclient" where
  "set_FailMode mode c = c\<lparr>xfailMode := newFailMod mode\<rparr>"

text \<open>
  \<open>Discovery\<close>: \<open>pairs\<close> is what \<open>GetServices\<close> returns and \<open>ch\<close> whether \<open>WatchService\<close> returns a channel.
\<close>

definition pairs_to_map :: "strmap \<Rightarrow> strmap" where
  "pairs_to_map pairs = foldl (\<lambda>m (k, v). AList.update k v m) [] pairs"

definition Discovery :: "string \<Rightarrow> strmap \<Rightarrow> bool \<Rightarrow> xclient \<Rightarrow> xclient" where
  "Discovery path pairs ch c =
     (let c = c\<lparr>xservicePath := path, cachedClient := [], has_discovery := True,
                servers := Some (pairs_to_map pairs)\<rparr>
      in if ch then c\<lparr>watching := True\<rparr> else c)"

text \<open>One message on the watch channel.\<close>

definition watch :: "strmap \<Rightarrow> xclient \<Rightarrow> xclient" where
  "watch pairs c = (if watching c then c\<lparr>servers := Some (pairs_to_map pairs)\<rparr> else c)"

definition errNoRegistry :: go_error where
  "errNoRegistry = NewError ''please set registryClient first,or use callDirect''"

text \<open>\<open>Call\<close>; \<open>None\<close> is a panic.\<close>

definition Call :: "'a xenv \<Rightarrow> 'a request \<Rightarrow> xclient \<Rightarrow> (go_error option \<times> xclient) option" where
  "Call env rq c =
     (case (if xselector c = None then set_Selector env Mode_Random c else Some c) of
        None \<Rightarrow> None
      | Some c \<Rightarrow>
          if \<not> has_discovery c then Some (Some errNoRegistry, c)
          else
            let ((cname, client, err), c) = selectClient env rq c
            in if err \<noteq> None \<and> \<not> is_FailFastMod (xfailMode c) then Some (err, c)
               else failMode_Call env rq client cname c)"

definition CallProxy :: "'a xenv \<Rightarrow> 'a request \<Rightarrow> xclient \<Rightarrow> (go_error option \<times> xclient) option" where
  "CallProxy env rq c = Call env (rq\<lparr>rq_path := xservicePath c\<rparr>) c"

text \<open>\<open>close\<close> on the flags of a connection's client, \<open>cerr\<close> being the error of closing the socket.\<close>

definition sub_close :: "go_error option \<Rightarrow> sub_client \<Rightarrow> go_error option \<times> sub_client" where
  "sub_close cerr s =
     (if sc_closing s \<or> sc_shutdown s then (Some (Sentinel ''connection is shut down''), s)
      else (cerr, s\<lparr>sc_closing := True\<rparr>))"

text \<open>
  \<open>Close\<close> of the client itself.  The goroutine it starts unregisters and closes the watch channel; a
  panic of that goroutine, on a nil or already closed channel, is recovered.
\<close>

fun close_all :: "(nat \<Rightarrow> go_error option) \<Rightarrow> (string \<times> nat) list \<Rightarrow> sub_client list \<Rightarrow> go_error list \<times> sub_client list" where
  "close_all cerr [] ss = ([], ss)"
| "close_all cerr ((k, i) # m) ss =
     (let (e, s) = sub_close (cerr i) (ss ! i); (es, ss) = close_all cerr m (ss[i := s])
      in ((case e of None \<Rightarrow> es | Some e \<Rightarrow> e # es), ss))"

definition Close :: "(nat \<Rightarrow> go_error option) \<Rightarrow> xclient \<Rightarrow> go_error option \<times> xclient" where
  "Close cerr c =
     (let (errs, ss) = close_all cerr (cachedClient c) (subs c)
      in ((if errs = [] then None else Some (NewMultiError errs)),
          c\<lparr>xshutdown := True, subs := ss, cachedClient := [], watching := False\<rparr>))"

section \<open>CallDirect and the breaker\<close>

text \<open>
  \<open>CallDirect\<close> on a connection: \<open>call\<close> is the unprotected call and \<open>brk\<close> the \<open>Call\<close> method of the
  breaker, if the client has one.
\<close>

record 'b breakerClient =
  bc_breaker :: "'b option"
  bc_timeout :: int

definition set_Breaker :: "'b \<Rightarrow> int \<Rightarrow> 'b breakerClient \<Rightarrow> 'b breakerClient" where
  "set_Breaker brk timeout bc = bc\<lparr>bc_breaker := Some brk, bc_timeout := timeout\<rparr>"

definition CallDirect ::
    "('env \<Rightarrow> 'w protected \<Rightarrow> int \<Rightarrow> 'b \<Rightarrow> 'w \<Rightarrow> go_error option \<times> 'b \<times> 'w) \<Rightarrow> 'env \<Rightarrow> 'w protected
      \<Rightarrow> 'b breakerClient \<Rightarrow> 'w \<Rightarrow> go_error option \<times> 'b breakerClient \<times> 'w" where
  "CallDirect brk env call bc w =
     (case bc_breaker bc of
        None \<Rightarrow> (let (err, w) = call w in (err, bc, w))
      | Some b \<Rightarrow>
          (let (err, b, w) = brk env call (bc_timeout bc) b w in (err, bc\<lparr>bc_breaker := Some b\<rparr>, w)))"

section \<open>Well-formed clients\<close>

definition wf_xclient :: "xclient \<Rightarrow> bool" where
  "wf_xclient c \<longleftrightarrow> distinct (map fst (cachedClient c)) \<and> (\<forall>(k, i) \<in> set (cachedClient c). i < length (subs c))"

lemma tick_simps [simp]:
  "cachedClient (tick c) = cachedClient c" "subs (tick c) = subs c" "xselector (tick c) = xselector c"
  "xfailMode (tick c) = xfailMode c" "xopt (tick c) = xopt c" "watching (tick c) = watching c"
  "servers (tick c) = servers c" "has_discovery (tick c) = has_discovery c" "clock (tick c) = Suc (clock c)"
  by (simp_all add: tick_def)

lemma getCachedClient_cases:
  assumes "getCachedClient env cname c = ((client, err), c')"
  obtains (cached) i where "map_of (cachedClient c) cname = Some i" "client = Some i" "err = None" "c' = c"
  | (refused) e where "map_of (cachedClient c) cname = None" "client = None" "err = Some e" "c' = tick c"
  | (fresh) "cname \<notin> fst ` set (cachedClient c)" "client = Some (length (subs c))" "err = None"
      "c' = (tick c)\<lparr>subs := subs c @ [\<lparr>sc_closing = False, sc_shutdown = False\<rparr>],
         cachedClient := cachedClient c @ [(cname, length (subs c))]\<rparr>"
proof (cases "map_of (cachedClient c) cname")
  case None
  then have new: "cname \<notin> fst ` set (cachedClient c)" by (simp add: map_of_eq_None_iff)
  obtain n a where na: "splitNetworkAndAddress cname = (n, a)" by (cases "splitNetworkAndAddress cname")
  show thesis
  proof (cases "x_connect env (clock c) n a")
    case conn: None
    show thesis
      by (rule that(3) [OF new])
        (use assms None conn new in \<open>simp_all add: getCachedClient_def na AList_update_fresh Let_def\<close>)
  next
    case (Some e)
    show thesis
      by (rule that(2) [OF None, of e]) (use assms None Some in \<open>simp_all add: getCachedClient_def na\<close>)
  qed
next
  case (Some i)
  show thesis
    by (rule that(1) [OF Some]) (use assms Some in \<open>simp_all add: getCachedClient_def\<close>)
qed

lemma getCachedClient_wf:
  assumes "wf_xclient c" and "getCachedClient env cname c = ((client, err), c')"
  shows "wf_xclient c'" and "client = Some i \<Longrightarrow> i < length (subs c')"
    and "(client = None) = (err \<noteq> None)"
    and "client = Some i \<Longrightarrow> map_of (cachedClient c') cname = Some i"
    and "xselector c' = xselector c" and "watching c' = watching c"
    and "i < length (subs c) \<Longrightarrow> i < length (subs c') \<and> subs c' ! i = subs c ! i"
  using assms(2)
  by (cases rule: getCachedClient_cases;
      use assms(1) in \<open>auto simp: wf_xclient_def nth_append map_add_Some_iff map_of_eq_None_iff less_Suc_eq
        dest!: map_of_SomeD\<close>)+


lemma removeClient_wf: "wf_xclient c \<Longrightarrow> wf_xclient (removeClient cname client c)"
  by (auto simp: removeClient_def wf_xclient_def Let_def AList.delete_eq distinct_map_filter split: option.splits)

lemma removeClient_simps [simp]:
  "length (subs (removeClient cname client c)) = length (subs c)"
  "xselector (removeClient cname client c) = xselector c"
  "xfailMode (removeClient cname client c) = xfailMode c" "xopt (removeClient cname client c) = xopt c"
  by (simp_all add: removeClient_def Let_def split: option.splits)

lemma direct_wf: "wf_xclient c \<Longrightarrow> direct env i c = (err, c') \<Longrightarrow> wf_xclient c'"
  by (auto simp: direct_def wf_xclient_def split: prod.splits)

lemma direct_simps:
  "direct env i c = (err, c') \<Longrightarrow> xselector c' = xselector c \<and> length (subs c') = length (subs c) \<and>
     cachedClient c' = cachedClient c"
  by (auto simp: direct_def split: prod.splits)

text \<open>A client whose selector keeps to its contract and has servers.\<close>

definition ready :: "xclient \<Rightarrow> bool" where
  "ready c \<longleftrightarrow> (case xselector c of None \<Rightarrow> False
     | Some sel \<Rightarrow> sel_invar sel \<and> sel_addrs sel \<noteq> [] \<and> '''' \<notin> set (sel_addrs sel))"

definition addresses :: "xclient \<Rightarrow> string list" where
  "addresses c = (case xselector c of None \<Rightarrow> [] | Some sel \<Rightarrow> sel_addrs sel)"

lemma selectClient_ready:
  assumes "ready c" and "selectClient env rq c = ((cname, client, err), c')"
  shows "ready c'" and "addresses c' = addresses c" and "cname \<in> set (addresses c)"
    and "\<exists>c1. getCachedClient env cname c1 = ((client, err), c') \<and>
      cachedClient c1 = cachedClient c \<and> subs c1 = subs c"
proof -
  obtain sel where sel: "xselector c = Some sel" "sel_invar sel" "sel_addrs sel \<noteq> []" "'''' \<notin> set (sel_addrs sel)"
    using assms(1) by (auto simp: ready_def split: option.splits)
  obtain name sel' where pick:
    "Select (x_fmt env) (rq\<lparr>rq_random := x_random env (clock c)\<rparr>) sel = (name, sel')"
    by (cases "Select (x_fmt env) (rq\<lparr>rq_random := x_random env (clock c)\<rparr>) sel")
  note step = Select_cases [OF sel(2) pick]
  have ne: "name \<noteq> ''''" using step sel(3,4) by (auto split: if_splits)
  define c1 where "c1 = (tick c)\<lparr>xselector := Some sel'\<rparr>"
  have get: "getCachedClient env name c1 = ((client, err), c')" "cname = name"
    using assms(2) pick sel(1) ne by (auto simp: selectClient_def c1_def Let_def split: prod.splits)
  have sel1: "xselector c' = Some sel'"
    using get(1) by (cases rule: getCachedClient_cases) (simp_all add: c1_def)
  show "ready c'" "addresses c' = addresses c" "cname \<in> set (addresses c)"
    using step sel sel1 get(2) by (auto simp: ready_def addresses_def split: if_splits)
  show "\<exists>c1. getCachedClient env cname c1 = ((client, err), c') \<and>
      cachedClient c1 = cachedClient c \<and> subs c1 = subs c"
    using get by (intro exI [of _ c1]) (simp add: c1_def)
qed

lemma selectClient_wf:
  assumes "wf_xclient c" and "selectClient env rq c = ((cname, client, err), c')"
  shows "wf_xclient c'"
proof -
  obtain name sel' where pick: "Select (x_fmt env) (rq\<lparr>rq_random := x_random env (clock c)\<rparr>) (the (xselector c)) = (name, sel')"
    by (cases "Select (x_fmt env) (rq\<lparr>rq_random := x_random env (clock c)\<rparr>) (the (xselector c))")
  have "wf_xclient ((tick c)\<lparr>xselector := Some sel'\<rparr>)" using assms(1) by (simp add: wf_xclient_def)
  then show ?thesis
    using assms(2) pick getCachedClient_wf(1)
    by (auto simp: selectClient_def Let_def split: if_splits prod.splits)
qed

lemma attempt_wf:
  assumes "attempt env client err c = (fin, err', c')"
  shows "wf_xclient c \<Longrightarrow> wf_xclient c'" and "xselector c' = xselector c"
    and "fin \<Longrightarrow> err' = None"
  using assms
  by (auto simp: attempt_def split: option.splits prod.splits dest: direct_wf direct_simps)

lemma FailOver_loop_wf:
  "wf_xclient c \<Longrightarrow> FailOver_loop env rq n client cname err c = (err', c') \<Longrightarrow> wf_xclient c'"
proof (induction n arbitrary: client cname err c)
  case (Suc n)
  obtain fin e1 c1 where att: "attempt env client err c = (fin, e1, c1)"
    by (cases "attempt env client err c")
  obtain cname2 client2 e2 c2 where sel: "selectClient env rq (removeClient cname client c1) = ((cname2, client2, e2), c2)"
    by (cases "selectClient env rq (removeClient cname client c1)") auto
  have wf1: "wf_xclient c1" by (rule attempt_wf(1) [OF att Suc.prems(1)])
  have "wf_xclient c2" by (rule selectClient_wf [OF removeClient_wf [OF wf1] sel])
  then show ?case using Suc.IH [of c2] Suc.prems(2) wf1 by (simp add: att sel split: if_splits)
qed simp

lemma FailTry_loop_wf:
  "wf_xclient c \<Longrightarrow> FailTry_loop env n client cname err c = (err', c') \<Longrightarrow> wf_xclient c'"
proof (induction n arbitrary: client err c)
  case (Suc n)
  obtain fin e1 c1 where att: "attempt env client err c = (fin, e1, c1)"
    by (cases "attempt env client err c")
  obtain client2 e2 c2 where get: "getCachedClient env cname (removeClient cname client c1) = ((client2, e2), c2)"
    by (cases "getCachedClient env cname (removeClient cname client c1)") auto
  have wf1: "wf_xclient c1" by (rule attempt_wf(1) [OF att Suc.prems(1)])
  have "wf_xclient c2" by (rule getCachedClient_wf(1) [OF removeClient_wf [OF wf1] get])
  then show ?case using Suc.IH [of c2] Suc.prems(2) wf1 by (simp add: att get split: if_splits)
qed simp

section \<open>Properties\<close>

lemma set_Selector_wf: "wf_xclient c \<Longrightarrow> set_Selector env mode c = Some c' \<Longrightarrow> wf_xclient c'"
  by (auto simp: set_Selector_def wf_xclient_def)

lemma FailFast_Call_wf:
  assumes "wf_xclient c" and "FailFast_Call env client cname c = Some (err, c')"
  shows "wf_xclient c'"
proof (cases client)
  case (Some i)
  obtain e c1 where d: "direct env i c = (e, c1)" by (cases "direct env i c")
  have wf1: "wf_xclient c1" by (rule direct_wf [OF assms(1) d])
  show ?thesis
    using assms(2) Some d wf1 removeClient_wf [OF wf1, of cname "Some i"]
    by (cases e) (auto simp: FailFast_Call_def split: if_splits)
qed (use assms(2) in \<open>simp add: FailFast_Call_def\<close>)

lemma failMode_Call_wf:
  assumes "wf_xclient c" and "failMode_Call env rq client cname c = Some (err, c')"
  shows "wf_xclient c'"
proof (cases "xfailMode c")
  case PtrFailFastMod
  then show ?thesis
    using assms(2) FailFast_Call_wf [OF assms(1)] by (simp add: failMode_Call_def)
next
  case PtrFailOverMod
  then show ?thesis
    using assms(2) FailOver_loop_wf [OF assms(1)] by (simp add: failMode_Call_def FailOver_Call_def)
next
  case PtrFailTryMod
  then show ?thesis
    using assms(2) FailTry_loop_wf [OF assms(1)] by (simp add: failMode_Call_def FailTry_Call_def)
qed


definition sample_xclient :: xclient where
  "sample_xclient =
     \<lparr>xopt = NewClient_option, cachedClient = [(''tcp@a:1'', 0)],
      subs = [\<lparr>sc_closing = False, sc_shutdown = False\<rparr>],
      xselector = Some (Sel_roundRobin \<lparr>rrservers = [''tcp@a:1'', ''tcp@b:1''], rri = 0\<rparr>),
      xfailMode = PtrFailOverMod, has_discovery = True, xservicePath = ''Arith'', xshutdown = False,
      servers = Some [(''tcp@a:1'', ''''), (''tcp@b:1'', '''')], watching = True, clock = 0\<rparr>"

text \<open>Surroundings in which every server accepts connections and every call fails.\<close>

definition failing_env :: "string xenv" where
  "failing_env =
     \<lparr>x_connect = (\<lambda>t n a. None), x_direct = (\<lambda>t i s. (Some UnexpectedEOF, s)), x_random = (\<lambda>t. 0),
      x_ping = (\<lambda>h. Ran [] None), x_fmt = id\<rparr>"

definition sample_rq :: "string request" where
  "sample_rq = \<lparr>rq_path = ''Arith'', rq_method = ''Mul'', rq_args = ''x'', rq_random = 0\<rparr>"

lemma sample_xclient_wf: "wf_xclient sample_xclient" "ready sample_xclient"
  by (simp_all add: wf_xclient_def sample_xclient_def ready_def sel_invar_def sel_addrs_def)


text \<open>The last thing the retry loops do is to get a client, and its error is what they return.\<close>

lemma getCachedClient_accepts:
  assumes "\<And>t n a. x_connect env t n a = None" and "getCachedClient env cname c = ((client, err), c')"
  shows "err = None"
proof (cases "map_of (cachedClient c) cname")
  case None
  then show ?thesis
    using assms by (cases "splitNetworkAndAddress cname") (simp add: getCachedClient_def Let_def)
qed (use assms(2) in \<open>simp add: getCachedClient_def\<close>)

lemma attempt_fails:
  assumes "\<And>t i s. fst (x_direct env t i s) \<noteq> None" and "attempt env client err c = (fin, err', c')"
  shows "\<not> fin"
proof (cases client)
  case (Some i)
  obtain e s where d: "x_direct env (clock c) i (subs c ! i) = (e, s)"
    by (cases "x_direct env (clock c) i (subs c ! i)")
  then have "e \<noteq> None" using assms(1) [of "clock c" i "subs c ! i"] by simp
  then show ?thesis using assms(2) Some d by (auto simp: attempt_def direct_def)
qed (use assms(2) in \<open>simp add: attempt_def\<close>)

lemma FailOver_loop_step:
  assumes "\<And>t i s. fst (x_direct env t i s) \<noteq> None" and "\<And>t n a. x_connect env t n a = None"
    and "ready c"
  obtains cname2 client2 c2 where "ready c2"
    and "\<And>m. FailOver_loop env rq (Suc m) client cname err c = FailOver_loop env rq m client2 cname2 None c2"
proof -
  obtain fin e1 c1 where att: "attempt env client err c = (fin, e1, c1)" by (cases "attempt env client err c")
  have fin: "\<not> fin" by (rule attempt_fails [OF assms(1) att])
  have rdy: "ready (removeClient cname client c1)"
    using assms(3) attempt_wf(2) [OF att] by (simp add: ready_def)
  obtain cname2 client2 e2 c2 where
    sel: "selectClient env rq (removeClient cname client c1) = ((cname2, client2, e2), c2)"
    by (cases "selectClient env rq (removeClient cname client c1)") auto
  obtain c3 where "getCachedClient env cname2 c3 = ((client2, e2), c2)"
    using selectClient_ready(4) [OF rdy sel] by blast
  then have "e2 = None" by (rule getCachedClient_accepts [OF assms(2)])
  then show thesis
    by (intro that [OF selectClient_ready(1) [OF rdy sel], of client2 cname2])
      (simp add: att fin sel)
qed

text \<open>The last thing the retry loop does is to get a client, and its error is what it returns.\<close>

lemma FailOver_loop_masks:
  assumes "\<And>t i s. fst (x_direct env t i s) \<noteq> None" and "\<And>t n a. x_connect env t n a = None"
    and "ready c"
  shows "fst (FailOver_loop env rq (Suc n) client cname err c) = None"
  using assms(3)
proof (induction n arbitrary: client cname err c)
  case 0
  obtain cname2 client2 c2 where
    "\<And>m. FailOver_loop env rq (Suc m) client cname err c = FailOver_loop env rq m client2 cname2 None c2"
    using FailOver_loop_step [OF assms(1,2) 0] by metis
  then show ?case by (simp del: FailOver_loop.simps(2))
next
  case (Suc n)
  obtain cname2 client2 c2 where "ready c2"
    "\<And>m. FailOver_loop env rq (Suc m) client cname err c = FailOver_loop env rq m client2 cname2 None c2"
    using FailOver_loop_step [OF assms(1,2) Suc.prems] by metis
  then show ?case using Suc.IH [of c2] by (simp del: FailOver_loop.simps(2))
qed

text \<open>C33: The fail-over mode can report success although every call failed.  Its loop overwrites the
  error of the failed call with the error of selecting the next server; if every attempt fails but
  the servers still accept connections, it returns a nil error after the last retry, and the
  caller uses a reply that was never filled in.\<close>

theorem FailOver_masks_failure:
  assumes "\<And>t i s. fst (x_direct env t i s) \<noteq> None" and "\<And>t n a. x_connect env t n a = None"
    and "ready c"
  shows "fst (FailOver_Call env rq n client cname c) = None"
proof (cases "nat n")
  case (Suc m)
  then show ?thesis using FailOver_loop_masks [OF assms] by (simp add: FailOver_Call_def del: FailOver_loop.simps)
qed (simp add: FailOver_Call_def)

theorem FailOver_masks_failure_witness:
  "fst (FailOver_Call failing_env sample_rq 3 (Some 0) ''tcp@a:1'' sample_xclient) = None"
  by (rule FailOver_masks_failure) (simp_all add: failing_env_def sample_xclient_wf)

text \<open>C34: The fail-fast mode tells the service's errors from the connection's.  After an error that the
  service reported the connection stays in the table and the client goes on as before; after any other
  error the connection leaves the table, later calls on it report a shut down connection, and the
  client's own watch of the registry ends with it.\<close>

theorem FailFast_errors:
  assumes "wf_xclient c" and "map_of (cachedClient c) cname = Some i"
    and "FailFast_Call env (Some i) cname c = Some (Some e, c')"
  shows "if is_ServiceError e
    then map_of (cachedClient c') cname = Some i \<and> watching c' = watching c
    else map_of (cachedClient c') cname = None \<and> sc_shutdown (subs c' ! i) \<and> \<not> watching c' \<and>
      fst (sub_close cerr (subs c' ! i)) \<noteq> None"
proof -
  obtain e1 s where x: "x_direct env (clock c) i (subs c ! i) = (e1, s)"
    by (cases "x_direct env (clock c) i (subs c ! i)")
  define c1 where "c1 = (tick c)\<lparr>subs := (subs c)[i := s]\<rparr>"
  have d: "direct env i c = (e1, c1)" by (simp add: direct_def x c1_def)
  have e1: "e1 = Some e" using assms(3) by (simp add: FailFast_Call_def d)
  have i: "i < length (subs c)" using assms(1,2) by (auto simp: wf_xclient_def dest: map_of_SomeD)
  have c': "c' = (if is_ServiceError e then c1 else removeClient cname (Some i) c1)"
    using assms(3) by (simp add: FailFast_Call_def d e1)
  show ?thesis
    using assms(2) i
    by (simp add: c' c1_def removeClient_def delete_conv sub_close_def)
qed

theorem FailFast_errors_witness:
  "map_of (cachedClient (snd (the (FailFast_Call failing_env (Some 0) ''tcp@a:1'' sample_xclient)))) ''tcp@a:1'' = None
    \<and> \<not> watching (snd (the (FailFast_Call failing_env (Some 0) ''tcp@a:1'' sample_xclient)))"
proof -
  have c: "wf_xclient sample_xclient" "map_of (cachedClient sample_xclient) ''tcp@a:1'' = Some 0"
    by (simp_all add: sample_xclient_wf) (simp add: sample_xclient_def)
  obtain c' where r: "FailFast_Call failing_env (Some 0) ''tcp@a:1'' sample_xclient = Some (Some UnexpectedEOF, c')"
    by (simp add: FailFast_Call_def direct_def failing_env_def)
  show ?thesis using FailFast_errors [OF c r, of None] by (simp add: r)
qed

lemma Select_watch: "xselector (watch pairs c) = xselector c" "ready (watch pairs c) = ready c"
  "addresses (watch pairs c) = addresses c"
  by (simp_all add: watch_def ready_def addresses_def)

text \<open>C35: Servers learnt from the registry are not used.  A selector is built once, from the servers known
  then; whatever lists the watch of the registry delivers afterwards, the next call still goes to one
  of the servers the selector was built with.\<close>

theorem watch_not_followed:
  assumes "ready c" and "selectClient env rq (fold watch updates c) = ((cname, client, err), c')"
  shows "cname \<in> set (addresses c)"
proof -
  have "ready (fold watch updates c) \<and> addresses (fold watch updates c) = addresses c"
    using assms(1) by (induction updates arbitrary: c) (simp_all add: Select_watch)
  then show ?thesis using selectClient_ready(3) [OF _ assms(2)] by simp
qed

theorem watch_not_followed_witness:
  "fst (fst (selectClient failing_env sample_rq (fold watch [[(''tcp@c:1'', '''')]] sample_xclient)))
    \<in> {''tcp@a:1'', ''tcp@b:1''}"
proof -
  obtain cname client err c' where
    s: "selectClient failing_env sample_rq (fold watch [[(''tcp@c:1'', '''')]] sample_xclient) = ((cname, client, err), c')"
    by (metis prod.collapse)
  have "addresses sample_xclient = [''tcp@a:1'', ''tcp@b:1'']"
    by (simp add: addresses_def sample_xclient_def sel_addrs_def)
  then show ?thesis using watch_not_followed [OF sample_xclient_wf(2) s] s by simp
qed

text \<open>A call through any breaker that returns nil was made and succeeded, with the breaker or without:
  \<open>CallDirect\<close> never reports success for a call it skipped or that timed out.\<close>

context breaker
begin

lemma CallDirect_nil:
  assumes "CallDirect Call env call bc w = (None, bc', w')"
  shows "call w = (None, w')"
proof (cases "bc_breaker bc")
  case None
  then show ?thesis using assms by (cases "call w") (simp add: CallDirect_def)
next
  case (Some b)
  obtain e b' w1 where s: "Call env call (bc_timeout bc) b w = (e, b', w1)"
    by (cases "Call env call (bc_timeout bc) b w")
  have "e = None" "w1 = w'" using assms by (simp_all add: CallDirect_def Some s)
  then show ?thesis using nil_means_success [OF s [unfolded \<open>e = None\<close>]] by (cases "call w") simp
qed

end

end
