(* ===== verification/Client_Steps.thy ===== *)
theory Client_Steps
  imports Client_Conn
begin

text \<open>
  The goroutines that share a connection, interleaved.  Every critical section of
  \<open>src/client/client.go\<close> is one step: the registration and the transmission of a request are two,
  as are the end of the receive loop and the code after it.
\<close>

section \<open>What the operations keep\<close>

text \<open>A call whose channel has received something.\<close>

definition delivered :: "'a conn \<Rightarrow> nat \<Rightarrow> bool" where
  "delivered w c \<longleftrightarrow> sent_calls (chans w ! call_Done (calls w ! c)) \<noteq> []"

text \<open>\<open>w'\<close> has the calls and channels of \<open>w\<close>, and at least its deliveries.\<close>

definition evolves :: "'a conn \<Rightarrow> 'a conn \<Rightarrow> bool" where
  "evolves w w' \<longleftrightarrow>
     length (calls w') = length (calls w) \<and> map cap (chans w') = map cap (chans w) \<and>
     (\<forall>c < length (calls w). call_Done (calls w' ! c) = call_Done (calls w ! c)) \<and>
     (\<forall>i < length (chans w). sent_calls (chans w ! i) \<noteq> [] \<longrightarrow> sent_calls (chans w' ! i) \<noteq> []) \<and>
     (shutdown w \<longrightarrow> shutdown w') \<and> seq w' = seq w"

definition wf_store :: "'a conn \<Rightarrow> bool" where
  "wf_store w \<longleftrightarrow>
     (\<forall>c < length (calls w). call_Done (calls w ! c) < length (chans w)) \<and>
     (\<forall>i < length (chans w). 0 < cap (chans w ! i)) \<and>
     distinct (map fst (pending_map w)) \<and>
     (\<forall>(k, c) \<in> set (pending_map w). c < length (calls w) \<and> unat k < unat (seq w))"

lemma evolves_refl [simp]: "evolves w w"
  by (simp add: evolves_def)

lemma evolves_chans: "evolves w w' \<Longrightarrow> length (chans w') = length (chans w)"
  by (metis evolves_def length_map)

lemma evolves_trans: "evolves w w' \<Longrightarrow> evolves w' w'' \<Longrightarrow> evolves w w''"
  using evolves_chans [of w w'] by (auto simp: evolves_def)

lemma evolves_delivered:
  assumes "evolves w w'" and "wf_store w" and "c < length (calls w)" and "delivered w c"
  shows "delivered w' c"
  using assms by (auto simp: evolves_def wf_store_def delivered_def)

lemma nth_update_keeps:
  "(\<And>x. g (f x) = g x) \<Longrightarrow> i < length xs \<Longrightarrow> g (xs[c := f (xs ! c)] ! i) = g (xs ! i)"
  by (cases "i = c") simp_all

lemma call_done_evolves [simp]: "evolves w (call_done c w)"
proof -
  have "map cap (xs[i := (xs ! i)\<lparr>sent_calls := y\<rparr>]) = map cap xs" for xs i y
    by (rule nth_equalityI)
      (simp_all add: nth_update_keeps [where g = cap and f = "\<lambda>x. x\<lparr>sent_calls := y\<rparr>"])
  then show ?thesis
    by (cases "call_Done (calls w ! c) < length (chans w)")
      (auto simp: evolves_def call_done_def Let_def nth_list_update list_update_beyond)
qed

lemma call_done_simps [simp]:
  "pending (call_done c w) = pending w" "seq (call_done c w) = seq w"
  "calls (call_done c w) = calls w" "shutdown (call_done c w) = shutdown w"
  "closing (call_done c w) = closing w" "opt (call_done c w) = opt w"
  "written (call_done c w) = written w" "pool (call_done c w) = pool w"
  by (simp_all add: call_done_def Let_def)

lemma update_call_simps [simp]:
  "pending (update_call c f w) = pending w" "seq (update_call c f w) = seq w"
  "chans (update_call c f w) = chans w" "shutdown (update_call c f w) = shutdown w"
  "closing (update_call c f w) = closing w" "opt (update_call c f w) = opt w"
  "written (update_call c f w) = written w" "pool (update_call c f w) = pool w"
  "length (calls (update_call c f w)) = length (calls w)"
  by (simp_all add: update_call_def)

lemma update_call_evolves:
  "(\<And>x. call_Done (f x) = call_Done x) \<Longrightarrow> evolves w (update_call c f w)"
  by (auto simp: evolves_def update_call_def nth_update_keeps)

lemma call_done_delivered:
  "wf_store w \<Longrightarrow> c < length (calls w) \<Longrightarrow> delivered (call_done c w) c"
  by (auto simp: wf_store_def delivered_def call_done_def Let_def)

text \<open>\<open>call_done\<close> after an update that leaves the channel alone: the shape of every completion.\<close>

lemma complete_evolves:
  "(\<And>x. call_Done (f x) = call_Done x) \<Longrightarrow> evolves w (call_done c (update_call c f w))"
  by (rule evolves_trans [OF update_call_evolves call_done_evolves])

lemma wf_store_update_call:
  "(\<And>x. call_Done (f x) = call_Done x) \<Longrightarrow> wf_store w \<Longrightarrow> wf_store (update_call c f w)"
  by (auto simp: wf_store_def update_call_def pending_map_def nth_update_keeps)

lemma complete_delivered:
  assumes "\<And>x. call_Done (f x) = call_Done x" and "wf_store w" and "c < length (calls w)"
  shows "delivered (call_done c (update_call c f w)) c"
  using call_done_delivered [of "update_call c f w" c] wf_store_update_call [of f w c] assms by simp

lemma fail_call_evolves [simp]: "evolves w (fail_call c e w)"
  unfolding fail_call_def by (rule complete_evolves) simp

lemma fail_call_delivered:
  "wf_store w \<Longrightarrow> c < length (calls w) \<Longrightarrow> delivered (fail_call c e w) c"
  unfolding fail_call_def by (rule complete_delivered) simp_all

lemma fail_call_simps [simp]:
  "pending (fail_call c e w) = pending w" "shutdown (fail_call c e w) = shutdown w"
  "closing (fail_call c e w) = closing w" "seq (fail_call c e w) = seq w"
  by (simp_all add: fail_call_def)

text \<open>A state with fewer pending calls that evolved from a well-formed one is well-formed.\<close>

lemma evolves_wf_store:
  assumes ev: "evolves w w'" and wf: "wf_store w" and dist: "distinct (map fst (pending_map w'))"
    and sub: "set (pending_map w') \<subseteq> set (pending_map w)"
  shows "wf_store w'"
  unfolding wf_store_def
proof (intro conjI)
  note len = evolves_chans [OF ev]
  have "map cap (chans w') ! i = map cap (chans w) ! i" for i using ev by (simp add: evolves_def)
  then have "cap (chans w' ! i) = cap (chans w ! i)" if "i < length (chans w)" for i
    using that len by (metis nth_map)
  then show "\<forall>i < length (chans w'). 0 < cap (chans w' ! i)"
    using wf len by (simp add: wf_store_def)
  show "\<forall>c < length (calls w'). call_Done (calls w' ! c) < length (chans w')"
    using ev wf len by (simp add: evolves_def wf_store_def)
  have "length (calls w') = length (calls w)" "seq w' = seq w" using ev by (simp_all add: evolves_def)
  then show "\<forall>(k, c) \<in> set (pending_map w'). c < length (calls w') \<and> unat k < unat (seq w')"
    using wf sub unfolding wf_store_def by fastforce
qed (rule dist)

lemma evolves_wf_store_same:
  "evolves w w' \<Longrightarrow> wf_store w \<Longrightarrow> pending w' = pending w \<Longrightarrow> wf_store w'"
  by (rule evolves_wf_store [of w]) (simp_all add: pending_map_def wf_store_def)

text \<open>Completing a list of calls.\<close>

lemma fold_fail:
  assumes "wf_store w" and "\<forall>(k, c) \<in> set m. c < length (calls w)"
    and "w' = foldl (\<lambda>w (sq, c). fail_call c e w) w m"
  shows "evolves w w' \<and> (\<forall>(k, c) \<in> set m. delivered w' c) \<and> pending w' = pending w \<and>
    closing w' = closing w \<and> shutdown w' = shutdown w"
  using assms
proof (induction m arbitrary: w)
  case (Cons kc m)
  obtain k0 c0 where kc: "kc = (k0, c0)" by (cases kc)
  define w1 where "w1 = fail_call c0 e w"
  have ev: "evolves w w1" by (simp add: w1_def)
  have wf: "wf_store w1" using evolves_wf_store_same [OF ev Cons.prems(1)] by (simp add: w1_def)
  have len: "length (calls w1) = length (calls w)" using ev by (simp add: evolves_def)
  have IH: "evolves w1 w' \<and> (\<forall>(k, c) \<in> set m. delivered w' c) \<and> pending w' = pending w1 \<and>
      closing w' = closing w1 \<and> shutdown w' = shutdown w1"
    by (rule Cons.IH [OF wf]) (use Cons.prems(2,3) len in \<open>simp_all add: kc w1_def\<close>)
  moreover have "delivered w' c0"
    using IH evolves_delivered [of w1 w' c0] wf fail_call_delivered [of w c0 e] Cons.prems(1,2) len
    by (simp add: kc w1_def)
  ultimately show ?case using evolves_trans [OF ev] by (auto simp: kc w1_def)
qed simp

lemma fail_all_completes:
  assumes "wf_store w"
  shows "evolves w (fail_all e w)" and "(k, c) \<in> set (pending_map w) \<Longrightarrow> delivered (fail_all e w) c"
    and "pending (fail_all e w) = pending w" and "closing (fail_all e w) = closing w"
    and "shutdown (fail_all e w) = shutdown w"
proof -
  have "\<forall>(k, c) \<in> set (pending_map w). c < length (calls w)"
    using assms by (auto simp: wf_store_def)
  note all = fold_fail [OF assms this fail_all_def, of e]
  show "evolves w (fail_all e w)" "pending (fail_all e w) = pending w"
    "closing (fail_all e w) = closing w" "shutdown (fail_all e w) = shutdown w"
    using all by simp_all
  show "(k, c) \<in> set (pending_map w) \<Longrightarrow> delivered (fail_all e w) c" using all by auto
qed

lemma take_pending_wf:
  assumes "take_pending sq w = (p, w1)" and "wf_store w"
  shows "evolves w w1" and "wf_store w1" and "p = Some c \<Longrightarrow> c < length (calls w)"
    and "p = map_of (pending_map w) sq"
    and "(k, c) \<in> set (pending_map w) \<Longrightarrow> k \<noteq> sq \<Longrightarrow> (k, c) \<in> set (pending_map w1)"
proof -
  have w1: "w1 = w\<lparr>pending := map_option (AList.delete sq) (pending w)\<rparr>"
    and p: "p = map_of (pending_map w) sq"
    using assms(1) by (auto simp: take_pending_def)
  have pm: "pending_map w1 = AList.delete sq (pending_map w)"
    by (simp add: w1 pending_map_def split: option.splits)
  show ev: "evolves w w1" by (simp add: w1 evolves_def)
  show "wf_store w1"
    by (rule evolves_wf_store [OF ev assms(2)])
      (use assms(2) in \<open>auto simp: pm wf_store_def AList.delete_eq distinct_map_filter\<close>)
  show "p = Some c \<Longrightarrow> c < length (calls w)"
    using assms(2) by (auto simp: p wf_store_def dest: map_of_SomeD)
  show "p = map_of (pending_map w) sq" by (rule p)
  show "(k, c) \<in> set (pending_map w) \<Longrightarrow> k \<noteq> sq \<Longrightarrow> (k, c) \<in> set (pending_map w1)"
    by (auto simp: pm AList.delete_eq)
qed

section \<open>The step relation\<close>

text \<open>The receive goroutine: in its loop, past it with an error, or ended.\<close>

datatype receiver = Reading | Leaving go_error | Stopped

text \<open>
  A state of the system: the connection, the requests that are registered but not yet transmitted,
  and the receive goroutine.
\<close>

type_synonym 'a sys = "'a conn \<times> (nat \<times> u64) list \<times> receiver"

inductive client_step :: "('a, 'w, 'r) libs \<Rightarrow> 'a sys \<Rightarrow> 'a sys \<Rightarrow> bool" for lib where
  register: "\<lbrakk>new_call ctx path method a r (Some (length (chans w)))
                (w\<lparr>chans := chans w @ [\<lparr>cap = 1, sent_calls = []\<rparr>]\<rparr>) = Some (c, w1);
              send_register c w1 = (sq, w2)\<rbrakk>
    \<Longrightarrow> client_step lib (w, fl, rc) (w2, (case sq of None \<Rightarrow> fl | Some sq \<Rightarrow> (c, sq) # fl), rc)"
| transmit: "\<lbrakk>(c, sq) \<in> set fl; send_transmit lib choice werr c sq w = Some w1\<rbrakk>
    \<Longrightarrow> client_step lib (w, fl, rc) (w1, remove1 (c, sq) fl, rc)"
| receive: "handle_message lib res w = (err, res', w1)
    \<Longrightarrow> client_step lib (w, fl, Reading) (w1, fl, case err of None \<Rightarrow> Reading | Some e \<Rightarrow> Leaving e)"
| read_error: "client_step lib (w, fl, Reading) (w, fl, Leaving e)"
| leave: "client_step lib (w, fl, Leaving e) (handle_end e w, fl, Stopped)"
| cancel: "call_cancel e w = (err, w1) \<Longrightarrow> client_step lib (w, fl, rc) (w1, fl, rc)"
| close: "close_conn cerr w = (err, w1) \<Longrightarrow> client_step lib (w, fl, rc) (w1, fl, rc)"

text \<open>A new connection, and what can be reached from it in \<open>n\<close> steps.\<close>

definition new_conn :: "client_option \<Rightarrow> message list \<Rightarrow> 'a conn" where
  "new_conn po p = \<lparr>opt = po, seq = 0, pending = None, closing = False, shutdown = False, calls = [],
     chans = [], pool = p, written = []\<rparr>"

inductive client_run :: "('a, 'w, 'r) libs \<Rightarrow> 'a sys \<Rightarrow> nat \<Rightarrow> 'a sys \<Rightarrow> bool" for lib s where
  start: "client_run lib s 0 s"
| step: "client_run lib s n s1 \<Longrightarrow> client_step lib s1 s2 \<Longrightarrow> client_run lib s (Suc n) s2"

inductive_cases client_run_0E: "client_run lib s 0 s'"

section \<open>No call is lost\<close>

text \<open>
  Every call has been delivered, or it is in the table of pending calls while the receive
  goroutine can still find it there.
\<close>

definition conn_inv :: "nat \<Rightarrow> 'a sys \<Rightarrow> bool" where
  "conn_inv n s \<longleftrightarrow>
     (case s of (w, fl, rc) \<Rightarrow>
        wf_store w \<and> unat (seq w) \<le> n \<and> (rc = Stopped \<longrightarrow> shutdown w) \<and>
        (\<forall>(c, sq) \<in> set fl. c < length (calls w)) \<and>
        (\<forall>c < length (calls w).
           delivered w c \<or> (rc \<noteq> Stopped \<and> (\<exists>k. (k, c) \<in> set (pending_map w)))))"

text \<open>A step that creates no call keeps the invariant if every call it removes is delivered.\<close>

lemma conn_inv_evolves:
  assumes inv: "conn_inv n (w, fl, rc)" and ev: "evolves w w'" and wf: "wf_store w'"
    and rem: "\<And>k c. (k, c) \<in> set (pending_map w) \<Longrightarrow> (k, c) \<in> set (pending_map w') \<or> delivered w' c"
    and fl: "set fl' \<subseteq> set fl" and rc: "rc' = Stopped \<longrightarrow> rc = Stopped"
  shows "conn_inv n (w', fl', rc')"
proof -
  have wfw: "wf_store w" and each: "\<And>c. c < length (calls w) \<Longrightarrow>
      delivered w c \<or> (rc \<noteq> Stopped \<and> (\<exists>k. (k, c) \<in> set (pending_map w)))"
    and seq: "unat (seq w) \<le> n" and stop: "rc = Stopped \<longrightarrow> shutdown w"
    and bnd: "\<forall>(c, sq) \<in> set fl. c < length (calls w)"
    using inv by (auto simp: conn_inv_def)
  have same: "length (calls w') = length (calls w)" "seq w' = seq w" "shutdown w \<longrightarrow> shutdown w'"
    using ev by (auto simp: evolves_def)
  have "delivered w' c \<or> (rc' \<noteq> Stopped \<and> (\<exists>k. (k, c) \<in> set (pending_map w')))"
    if "c < length (calls w)" for c
    using each [OF that] rem rc evolves_delivered [OF ev wfw that] by blast
  moreover have "\<forall>(c, sq) \<in> set fl'. c < length (calls w')" using bnd fl same by auto
  ultimately show ?thesis using wf seq stop rc same by (auto simp: conn_inv_def)
qed

text \<open>Taking a call out of the table and completing it.\<close>

lemma take_complete:
  assumes wf: "wf_store w" and take: "take_pending sq w = (Some c, w1)"
    and f: "\<And>x. call_Done (f x) = call_Done x"
  defines "w' \<equiv> call_done c (update_call c f w1)"
  shows "evolves w w'" and "wf_store w'"
    and "(k, d) \<in> set (pending_map w) \<Longrightarrow> (k, d) \<in> set (pending_map w') \<or> delivered w' d"
proof -
  note tp = take_pending_wf [OF take wf]
  have c: "c < length (calls w1)" using tp(3) [of c] tp(1) by (simp add: evolves_def)
  have ev: "evolves w1 w'" unfolding w'_def by (rule complete_evolves [OF f])
  show "evolves w w'" by (rule evolves_trans [OF tp(1) ev])
  show wf': "wf_store w'"
    by (rule evolves_wf_store_same [OF ev tp(2)]) (simp add: w'_def)
  have del: "delivered w' c" unfolding w'_def by (rule complete_delivered [OF f tp(2) c])
  have pm: "pending_map w' = pending_map w1" by (simp add: w'_def pending_map_def)
  assume kd: "(k, d) \<in> set (pending_map w)"
  show "(k, d) \<in> set (pending_map w') \<or> delivered w' d"
  proof (cases "k = sq")
    case True
    then have "map_of (pending_map w) sq = Some d"
      using kd wf by (simp add: wf_store_def)
    then show ?thesis using tp(4) del by simp
  next
    case False
    then show ?thesis using tp(5) [OF kd] pm by simp
  qed
qed

lemma take_complete_fail:
  assumes "wf_store w" and "take_pending sq w = (Some c, w1)"
  shows "evolves w (fail_call c e w1)" and "wf_store (fail_call c e w1)"
    and "(k, d) \<in> set (pending_map w) \<Longrightarrow>
      (k, d) \<in> set (pending_map (fail_call c e w1)) \<or> delivered (fail_call c e w1) d"
  unfolding fail_call_def by (rule take_complete [OF assms]; simp)+

lemma take_none:
  assumes "wf_store w" and "take_pending sq w = (None, w1)"
  shows "evolves w w1" and "wf_store w1"
    and "(k, d) \<in> set (pending_map w) \<Longrightarrow> (k, d) \<in> set (pending_map w1)"
proof -
  note tp = take_pending_wf [OF assms(2,1)]
  show "evolves w w1" "wf_store w1" by (fact tp)+
  have "sq \<notin> fst ` set (pending_map w)" using tp(4) [symmetric] by (simp add: map_of_eq_None_iff)
  then show "(k, d) \<in> set (pending_map w) \<Longrightarrow> (k, d) \<in> set (pending_map w1)"
    using tp(5) [of k d] by force
qed

lemma unat_Suc64: "unat (s :: u64) + 1 < 2 ^ 64 \<Longrightarrow> unat (s + 1) = Suc (unat s)"
  by (simp add: unat_word_ariths)

text \<open>Registering a new call.\<close>

definition fresh_call :: "ctx_values \<Rightarrow> string \<Rightarrow> string \<Rightarrow> 'a \<Rightarrow> 'a \<Rightarrow> 'a conn \<Rightarrow> 'a conn" where
  "fresh_call ctx path method a r w =
     w\<lparr>chans := chans w @ [\<lparr>cap = 1, sent_calls = []\<rparr>],
       calls := calls w @ [\<lparr>servicePath = path, serviceMethod = method, metadata = ReqMetaDataKey ctx,
         resMetadata = None, args = a, reply = r, call_Error = None, call_Done = length (chans w)\<rparr>]\<rparr>"

lemma new_call_private:
  "new_call ctx path method a r (Some (length (chans w)))
     (w\<lparr>chans := chans w @ [\<lparr>cap = 1, sent_calls = []\<rparr>]\<rparr>) = Some (length (calls w), fresh_call ctx path method a r w)"
  by (simp add: new_call_def fresh_call_def Let_def)

lemma fresh_call_store:
  assumes "wf_store w" and "w1 = fresh_call ctx path method a r w"
  shows "wf_store w1" and "length (calls w1) = Suc (length (calls w))"
    and "pending w1 = pending w" "seq w1 = seq w" "shutdown w1 = shutdown w"
    and "c < length (calls w) \<Longrightarrow> delivered w1 c \<longleftrightarrow> delivered w c"
  using assms
  by (auto simp: fresh_call_def wf_store_def delivered_def nth_append pending_map_def less_Suc_eq)

lemma send_register_cases:
  assumes "send_register c w1 = (p, w2)"
  obtains (failed) e where "p = None" and "w2 = fail_call c e w1"
  | (queued) "p = Some (seq w1)" and "\<not> shutdown w1"
      and "w2 = w1\<lparr>seq := seq w1 + 1, pending := Some (AList.update (seq w1) c (pending_map w1))\<rparr>"
  using assms by (auto simp: send_register_def split: if_splits option.splits)

lemma register_inv:
  assumes inv: "conn_inv n (w, fl, rc)" and n: "Suc n < 2 ^ 64"
    and reg: "send_register (length (calls w)) (fresh_call ctx path method a r w) = (p, w2)"
  shows "conn_inv (Suc n)
    (w2, (case p of None \<Rightarrow> fl | Some sq \<Rightarrow> (length (calls w), sq) # fl), rc)"
proof -
  let ?c = "length (calls w)"
  define w1 where "w1 = fresh_call ctx path method a r w"
  have wf: "wf_store w" and each: "\<And>c. c < ?c \<Longrightarrow>
      delivered w c \<or> (rc \<noteq> Stopped \<and> (\<exists>k. (k, c) \<in> set (pending_map w)))"
    and seq: "unat (seq w) \<le> n" and stop: "rc = Stopped \<longrightarrow> shutdown w"
    and bnd: "\<forall>(c, sq) \<in> set fl. c < ?c"
    using inv by (auto simp: conn_inv_def)
  note w1 = fresh_call_store [OF wf w1_def]
  have pm1: "pending_map w1 = pending_map w" by (simp add: pending_map_def w1(3))
  from reg [folded w1_def] show ?thesis
  proof (cases rule: send_register_cases)
    case (failed e)
    have ev: "evolves w1 w2" by (simp add: failed)
    have "wf_store w2" by (rule evolves_wf_store_same [OF ev w1(1)]) (simp add: failed)
    moreover have "delivered w2 ?c" using fail_call_delivered [OF w1(1), of ?c e] w1(2) failed by simp
    moreover have "delivered w2 c" if "c < ?c" "delivered w c" for c
      using evolves_delivered [OF ev w1(1), of c] w1(2,6) that by simp
    moreover have "length (calls w2) = Suc ?c" using ev w1(2) by (simp add: evolves_def)
    moreover have "seq w2 = seq w" "shutdown w2 = shutdown w" "pending_map w2 = pending_map w"
      using failed w1 pm1 by (simp_all add: pending_map_def)
    ultimately show ?thesis
      using each seq stop bnd failed by (auto simp: conn_inv_def less_Suc_eq)
  next
    case queued
    have s1: "unat (seq w + 1) = Suc (unat (seq w))"
      using seq n by (intro unat_Suc64) simp
    have fresh: "seq w \<notin> fst ` set (pending_map w)" using wf by (auto simp: wf_store_def)
    then have pm2: "pending_map w2 = pending_map w @ [(seq w, ?c)]"
      using queued w1 pm1 by (simp add: pending_map_def AList_update_fresh)
    have "wf_store w2"
      using w1 wf queued pm2 fresh s1 pm1 by (auto simp: wf_store_def)
    moreover have "delivered w2 c \<longleftrightarrow> delivered w c" if "c < ?c" for c
      using w1(6) that queued by (simp add: delivered_def)
    moreover have "length (calls w2) = Suc ?c" "shutdown w2 = shutdown w" using queued w1 by simp_all
    moreover have "rc \<noteq> Stopped" using stop queued w1 by simp
    ultimately show ?thesis
      using each seq bnd queued pm2 s1 w1 by (auto simp: conn_inv_def less_Suc_eq)
  qed
qed

text \<open>Changes of the pool and of the written bytes are invisible to the invariant.\<close>

lemma evolves_frame [simp]:
  "evolves w (w'\<lparr>pool := p\<rparr>) = evolves w w'" "evolves w (w'\<lparr>written := x\<rparr>) = evolves w w'"
  "evolves (w\<lparr>pool := p\<rparr>) w' = evolves w w'" "evolves (w\<lparr>written := x\<rparr>) w' = evolves w w'"
  by (simp_all add: evolves_def)

lemma store_frame [simp]:
  "wf_store (w\<lparr>pool := p\<rparr>) = wf_store w" "wf_store (w\<lparr>written := x\<rparr>) = wf_store w"
  "pending_map (w\<lparr>pool := p\<rparr>) = pending_map w" "pending_map (w\<lparr>written := x\<rparr>) = pending_map w"
  "delivered (w\<lparr>pool := p\<rparr>) = delivered w" "delivered (w\<lparr>written := x\<rparr>) = delivered w"
  by (simp_all add: wf_store_def pending_map_def delivered_def fun_eq_iff)

text \<open>What a step may do to the calls it finds: complete some and remove them, create none.\<close>

definition settles :: "'a conn \<Rightarrow> 'a conn \<Rightarrow> bool" where
  "settles w w' \<longleftrightarrow> evolves w w' \<and> wf_store w' \<and>
     (\<forall>(k, c) \<in> set (pending_map w). (k, c) \<in> set (pending_map w') \<or> delivered w' c)"

lemma settles_inv:
  "conn_inv n (w, fl, rc) \<Longrightarrow> settles w w' \<Longrightarrow> set fl' \<subseteq> set fl \<Longrightarrow> rc' = Stopped \<longrightarrow> rc = Stopped
    \<Longrightarrow> conn_inv n (w', fl', rc')"
  by (rule conn_inv_evolves) (auto simp: settles_def)

lemma settles_refl: "wf_store w \<Longrightarrow> settles w w"
  by (auto simp: settles_def)

lemma settles_frame [simp]:
  "settles w (w'\<lparr>pool := p\<rparr>) = settles w w'" "settles w (w'\<lparr>written := x\<rparr>) = settles w w'"
  "settles (w\<lparr>pool := p\<rparr>) w' = settles w w'" "settles (w\<lparr>written := x\<rparr>) w' = settles w w'"
  by (simp_all add: settles_def)

lemma settles_trans:
  assumes "settles w w1" and "settles w1 w2" and "wf_store w"
  shows "settles w w2"
proof -
  have "(k, c) \<in> set (pending_map w2) \<or> delivered w2 c" if kc: "(k, c) \<in> set (pending_map w)" for k c
  proof -
    have "c < length (calls w1)"
      using assms(1,3) kc by (auto simp: settles_def evolves_def wf_store_def)
    then show ?thesis
      using assms(1,2) kc evolves_delivered [of w1 w2 c] by (auto simp: settles_def)
  qed
  then show ?thesis
    using assms evolves_trans [of w w1 w2] by (auto simp: settles_def)
qed

lemma settles_fail_call: "wf_store w \<Longrightarrow> settles w (fail_call c e w)"
  using evolves_wf_store_same [OF fail_call_evolves [of w c e]]
  by (auto simp: settles_def pending_map_def)

lemma settles_take_fail:
  "wf_store w \<Longrightarrow> take_pending sq w = (Some c, w1) \<Longrightarrow> settles w (fail_call c e w1)"
  unfolding settles_def using take_complete_fail [of w sq c w1] by blast

lemma settles_take_none: "wf_store w \<Longrightarrow> take_pending sq w = (None, w1) \<Longrightarrow> settles w w1"
  using take_none [of w sq w1] by (auto simp: settles_def)

lemma Reset_not_oneway: "\<not> IsOneway (Header (Reset m))" if "wf_header (Header m)"
  using Reset_cleared [OF that] by simp

text \<open>The header of a request is well-formed, whatever the pool held.\<close>

lemma build_request_wf:
  "wf_header (Header m) \<Longrightarrow> build_request lib po x sq m = Inr req \<Longrightarrow> wf_header (Header req)"
  by (auto simp: build_request_def Let_def split: if_splits sum.splits)

lemma settles_complete:
  assumes "wf_store w" and "take_pending sq w = (Some c, w1)" and "\<And>x. call_Done (f x) = call_Done x"
  shows "settles w (call_done c (update_call c f w1))"
  unfolding settles_def using take_complete [OF assms] by blast

lemma settles_take_done:
  assumes "wf_store w" and "take_pending sq w = (Some c, w1)"
  shows "settles w (call_done c w1)"
  using settles_complete [OF assms, of id] by (simp add: update_call_def)

lemma settles_transmit:
  assumes wf: "wf_store w" and "send_transmit lib choice werr c sq w = Some w'"
  shows "settles w w'"
proof -
  obtain req p where msg: "GetMsgs choice (pool w) = (req, p)" by (cases "GetMsgs choice (pool w)")
  define w1 where "w1 = w\<lparr>pool := p\<rparr>"
  have wf1: "wf_store w1" and s1: "settles w w1" using wf settles_refl [OF wf] by (simp_all add: w1_def)
  have finish: "settles w' w2 \<and> wf_store w2"
    if "wf_store w'" "w2 = (if oneway then (case take_pending sq w' of (None, v) \<Rightarrow> v | (Some d, v) \<Rightarrow> call_done d v) else w')"
    for w' w2 :: "'a conn" and oneway
    using that settles_refl settles_take_done [of w' sq] settles_take_none [of w' sq]
    by (auto simp: settles_def split: prod.splits option.splits)
  show ?thesis
  proof (cases "build_request lib (opt w1) (calls w1 ! c) sq req")
    case (Inl err)
    then have "w' = fail_call c err w1" using assms(2) msg by (simp add: send_transmit_def w1_def)
    then show ?thesis using settles_trans [OF s1 settles_fail_call [OF wf1] wf] by simp
  next
    case (Inr req')
    obtain data where enc: "Encode req' = Some data"
      using assms(2) msg Inr by (cases "Encode req'") (auto simp: send_transmit_def w1_def Let_def)
    define w2 where "w2 = (case werr of None \<Rightarrow> w1\<lparr>written := written w1 @ [data]\<rparr>
      | Some (n, err) \<Rightarrow> (case take_pending sq (w1\<lparr>written := written w1 @ [take n data]\<rparr>) of
          (None, v) \<Rightarrow> v | (Some d, v) \<Rightarrow> fail_call d err v))"
    have s2: "settles w1 w2"
      using wf1 settles_refl [OF wf1]
        settles_take_none [of "w1\<lparr>written := written w1 @ [take n data]\<rparr>" sq for n]
        settles_take_fail [of "w1\<lparr>written := written w1 @ [take n data]\<rparr>" sq for n]
      by (auto simp: w2_def split: option.splits prod.splits)
    then have wf2: "wf_store (w2\<lparr>pool := FreeMsg req' (pool w2)\<rparr>)" by (simp add: settles_def)
    have "w' = (if IsOneway (Header (Reset req'))
      then (case take_pending sq (w2\<lparr>pool := FreeMsg req' (pool w2)\<rparr>) of (None, v) \<Rightarrow> v | (Some d, v) \<Rightarrow> call_done d v)
      else w2\<lparr>pool := FreeMsg req' (pool w2)\<rparr>)"
      using assms(2) unfolding send_transmit_def msg
      by (simp only: Let_def prod.case w1_def [symmetric] Inr sum.case enc option.case w2_def [symmetric] option.inject)
    then have "settles (w2\<lparr>pool := FreeMsg req' (pool w2)\<rparr>) w'"
      using finish [OF wf2] by blast
    then show ?thesis using settles_trans [OF settles_trans [OF s1 s2 wf] _ wf, of w'] by simp
  qed
qed

lemma settles_receive:
  assumes wf: "wf_store w" and msg: "handle_message lib res w = (err, res', w')"
  shows "settles w w'"
proof (cases "MessageType (Header res) = Request \<and> \<not> IsHeartbeat (Header res) \<and> IsOneway (Header res)")
  case True
  then have "w' = w" using msg by (simp add: handle_message_def Let_def)
  then show ?thesis using settles_refl [OF wf] by simp
next
  case False
  obtain p w1 where take: "take_pending (Seq (Header res)) w = (p, w1)"
    by (cases "take_pending (Seq (Header res)) w")
  show ?thesis
  proof (cases p)
    case None
    then have "w' = w1" using msg False take by (auto simp: handle_message_def Let_def split: if_splits)
    then show ?thesis using settles_take_none [OF wf] take None by simp
  next
    case (Some c)
    then obtain f where "w' = call_done c (update_call c f w1)" "\<And>x. call_Done (f x) = call_Done x"
      using msg False take
      by (auto simp: handle_message_def Let_def split: if_splits prod.splits intro!: that)
    then show ?thesis using settles_complete [OF wf, of _ c w1 f] take Some by simp
  qed
qed

lemma settles_cancel: "wf_store w \<Longrightarrow> call_cancel e w = (err, w') \<Longrightarrow> settles w w'"
  by (auto simp: call_cancel_def settles_take_none settles_take_fail split: prod.splits option.splits)

text \<open>After the loops over the table every call in it is delivered.\<close>

lemma handle_end_wf:
  assumes "wf_store w"
  shows "settles w (handle_end e w)" and "shutdown (handle_end e w)"
    and "(k, c) \<in> set (pending_map w) \<Longrightarrow> delivered (handle_end e w) c"
proof -
  define w1 where "w1 = w\<lparr>shutdown := True\<rparr>"
  obtain e' where e': "handle_end e w = fail_all e' w1"
    by (simp add: handle_end_def w1_def Let_def)
  have wf1: "wf_store w1" and ev: "evolves w w1" and pm: "pending_map w1 = pending_map w"
    using assms by (simp_all add: w1_def wf_store_def evolves_def pending_map_def)
  note all = fail_all_completes [OF wf1, where e = e']
  show "shutdown (handle_end e w)" using all(5) by (simp add: e' w1_def)
  show del: "(k, c) \<in> set (pending_map w) \<Longrightarrow> delivered (handle_end e w) c" for k c
    using all(2) [of k c] pm by (simp add: e')
  show "settles w (handle_end e w)"
    using evolves_trans [OF ev all(1)] evolves_wf_store_same [OF all(1) wf1 all(3)] del
    by (auto simp: settles_def e')
qed

lemma settles_close:
  assumes wf: "wf_store w" and close: "close_conn cerr w = (err, w')"
  shows "settles w w'"
proof -
  note all = fail_all_completes [OF wf, where e = ErrShutdown]
  define w1 where "w1 = (fail_all ErrShutdown w)\<lparr>pending := map_option (\<lambda>m. []) (pending (fail_all ErrShutdown w))\<rparr>"
  have pm: "pending_map w1 = []" by (simp add: w1_def pending_map_def split: option.splits)
  have ev: "evolves w w1" using all(1) by (simp add: w1_def evolves_def)
  have del: "delivered w1 c" if "(k, c) \<in> set (pending_map w)" for k c
    using all(2) [OF that] by (simp add: w1_def delivered_def)
  have "settles w w1" using ev evolves_wf_store [OF ev wf] pm del by (auto simp: settles_def)
  moreover have "w' = w1 \<or> w' = w1\<lparr>closing := True\<rparr>"
    using close by (auto simp: close_conn_def w1_def Let_def split: if_splits)
  moreover have "settles w (w1\<lparr>closing := True\<rparr>) = settles w w1"
    by (simp add: settles_def evolves_def wf_store_def pending_map_def delivered_def)
  ultimately show ?thesis by auto
qed

lemma conn_inv_mono: "conn_inv n s \<Longrightarrow> conn_inv (Suc n) s"
  by (cases s) (auto simp: conn_inv_def)

lemma leave_inv:
  assumes inv: "conn_inv n (w, fl, Leaving e)"
  shows "conn_inv n (handle_end e w, fl, Stopped)"
proof -
  have wfw: "wf_store w" using inv by (simp add: conn_inv_def)
  have left: "conn_inv n (handle_end e w, fl, Leaving e)"
    using settles_inv [where n = n and w = w and fl = fl and rc = "Leaving e" and w' = "handle_end e w" and fl' = fl and rc' = "Leaving e"] handle_end_wf [OF wfw] inv by simp
  have ev: "evolves w (handle_end e w)" using handle_end_wf(1) [OF wfw, where e = e] by (simp add: settles_def)
  have "delivered (handle_end e w) c" if "c < length (calls w)" for c
  proof -
    have "delivered w c \<or> (\<exists>k. (k, c) \<in> set (pending_map w))" using inv that by (auto simp: conn_inv_def)
    then show ?thesis
      using evolves_delivered [OF ev wfw that] handle_end_wf(3) [OF wfw, where e = e] by blast
  qed
  moreover have "length (calls (handle_end e w)) = length (calls w)" using ev by (simp add: evolves_def)
  ultimately show ?thesis
    using left handle_end_wf(2) [OF wfw, where e = e] by (simp add: conn_inv_def)
qed

lemma conn_inv_step:
  assumes "client_step lib s s'" and "conn_inv n s" and "Suc n < 2 ^ 64"
  shows "conn_inv (Suc n) s'"
proof -
  have wf: "wf_store w" if "s = (w, fl, rc)" for w fl rc
    using assms(2) that by (simp add: conn_inv_def)
  note set_inv = settles_inv [of n, THEN conn_inv_mono]
  from assms(1) show ?thesis
  proof cases
    case (register ctx path mth a r w c w1 sq w2 fl rc)
    have "c = length (calls w)" "w1 = fresh_call ctx path mth a r w"
      using register(3) unfolding new_call_private by simp_all
    then show ?thesis
      using register_inv [of n w fl rc ctx path mth a r sq w2] assms(2,3) register(1,2,4)
      by (auto split: option.splits)
  next
    case (transmit c sq fl choice werr w w1 rc)
    then have "settles w w1" by (intro settles_transmit [OF wf]) simp_all
    then show ?thesis
      using set_inv [of w fl rc w1 "remove1 (c, sq) fl" rc] transmit assms(2)
      by (simp add: set_remove1_subset)
  next
    case (receive res w err res' w1 fl)
    then have "settles w w1" by (intro settles_receive [OF wf]) simp_all
    then show ?thesis
      using set_inv [of w fl Reading w1 fl] receive assms(2) by (simp split: option.splits)
  next
    case (read_error w fl e)
    then have "settles w w" by (intro settles_refl wf) simp
    then show ?thesis using set_inv [of w fl Reading w fl] read_error assms(2) by simp
  next
    case (leave w fl e)
    then show ?thesis using conn_inv_mono [OF leave_inv [where n = n and w = w and fl = fl and e = e]] assms(2) by simp
  next
    case (cancel e w err w1 fl rc)
    then have "settles w w1" by (intro settles_cancel [OF wf]) simp_all
    then show ?thesis using set_inv [of w fl rc w1 fl rc] cancel assms(2) by simp
  next
    case (close cerr w err w1 fl rc)
    then have "settles w w1" by (intro settles_close [OF wf]) simp_all
    then show ?thesis using set_inv [of w fl rc w1 fl rc] close assms(2) by simp
  qed
qed

lemma conn_inv_new: "conn_inv 0 (new_conn po p, [], Reading)"
  by (simp add: conn_inv_def new_conn_def wf_store_def pending_map_def)

lemma conn_inv_run:
  "client_run lib s n s' \<Longrightarrow> conn_inv 0 s \<Longrightarrow> n < 2 ^ 64 \<Longrightarrow> conn_inv n s'"
proof (induction rule: client_run.induct)
  case (step n s1 s2)
  then show ?case using conn_inv_step [of lib s1 s2 n] by simp
qed

text \<open>C3: No call is lost.  However the goroutines of a connection interleave - callers registering
  and transmitting requests, the receive loop, cancellations, write errors and \<open>close\<close> - every call
  has been handed to its channel, or it is in the table of pending calls and the receive goroutine
  has not stopped; once that goroutine has stopped every call is completed, so no caller waits for
  ever on a dead connection.  The bound on the number of steps keeps the 64-bit sequence number
  from wrapping around.\<close>

theorem no_call_lost:
  assumes "client_run lib (new_conn po p, [], Reading) n (w, fl, rc)" and "n < 2 ^ 64"
    and "c < length (calls w)"
  shows "delivered w c \<or> (rc \<noteq> Stopped \<and> c \<in> snd ` set (pending_map w))"
  using conn_inv_run [OF assms(1) conn_inv_new assms(2)] assms(3)
  by (force simp: conn_inv_def)

definition sample_sys :: "string sys" where
  "sample_sys =
     (let w = fresh_call \<lparr>ReqMetaDataKey = None, ResMetaDataKey = None\<rparr> ''Arith'' ''Mul'' ''x'' ''''
                (new_conn sample_option [])
      in (w\<lparr>seq := 1, pending := Some [(0, 0)]\<rparr>, [(0, 0)], Reading))"

lemma sample_run: "client_run store_libs (new_conn sample_option [], [], Reading) 1 sample_sys"
proof -
  let ?w = "new_conn sample_option [] :: string conn" and ?ctx = "\<lparr>ReqMetaDataKey = None, ResMetaDataKey = None\<rparr>"
  let ?w1 = "fresh_call ?ctx ''Arith'' ''Mul'' ''x'' '''' ?w"
  have "send_register 0 ?w1 = (Some 0, ?w1\<lparr>seq := 1, pending := Some [(0, 0)]\<rparr>)"
    by (simp add: send_register_def fresh_call_def new_conn_def sample_option_def Codecs_def
        JSON_def ProtoBuffer_def MsgPack_def pending_map_def)
  moreover have "length (calls ?w) = 0" by (simp add: new_conn_def)
  ultimately have "client_step store_libs (?w, [], Reading) sample_sys"
    using client_step.register [OF new_call_private [of ?ctx "''Arith''" "''Mul''" "''x''" "''''" ?w], of "Some 0"
        "?w1\<lparr>seq := 1, pending := Some [(0, 0)]\<rparr>" store_libs "[]" Reading]
    by (simp add: sample_sys_def Let_def)
  then show ?thesis using client_run.step [OF client_run.start] by fastforce
qed

theorem no_call_lost_witness:
  "delivered (fst sample_sys) 0 \<or> 0 \<in> snd ` set (pending_map (fst sample_sys))"
proof -
  obtain w fl rc where s: "sample_sys = (w, fl, rc)" by (cases sample_sys)
  have "0 < length (calls w)" using s by (auto simp: sample_sys_def fresh_call_def)
  then show ?thesis using no_call_lost [OF sample_run [unfolded s], of 0] unfolding s by auto
qed

text \<open>The error every call in the table gets when the connection ends.\<close>

lemma fold_fail_error:
  assumes "\<forall>(k, c) \<in> set m. c < length (calls w)"
    and "d \<in> snd ` set m \<or> call_Error (calls w ! d) = Some e" and "d < length (calls w)"
  shows "call_Error (calls (foldl (\<lambda>w (sq, c). fail_call c e w) w m) ! d) = Some e"
  using assms
proof (induction m arbitrary: w)
  case (Cons kc m)
  obtain k c where kc: "kc = (k, c)" by (cases kc)
  have calls: "calls (fail_call c e w) = (calls w)[c := (calls w ! c)\<lparr>call_Error := Some e\<rparr>]"
    by (simp add: fail_call_def update_call_def)
  then show ?case
    using Cons.prems Cons.IH [of "fail_call c e w"] by (auto simp: kc nth_list_update)
qed auto

lemma fail_all_error:
  "wf_store w \<Longrightarrow> (k, d) \<in> set (pending_map w) \<Longrightarrow> call_Error (calls (fail_all e w) ! d) = Some e"
  unfolding fail_all_def by (rule fold_fail_error) (auto simp: wf_store_def intro: rev_image_eqI)

section \<open>Routing, cancellation and the end of a connection\<close>

text \<open>A normal response to a pending call.\<close>

lemma handle_message_routes:
  assumes "wf_store w" and "map_of (pending_map w) (Seq (Header res)) = Some c"
    and "MessageType (Header res) = Response" and "MessageStatusType (Header res) \<noteq> Error"
    and "\<not> IsHeartbeat (Header res)" and "CompressType (Header res) \<noteq> Gzip" and "Payload res \<noteq> []"
    and "Codecs (SerializeType (Header res)) = Some cd"
    and "codec_Decode (codec_lib lib) cd (Payload res) (reply (calls w ! c)) = (v, None)"
  shows "\<exists>w'. handle_message lib res w = (None, Reset res, w') \<and> delivered w' c \<and>
    calls w' = (calls w)[c := (calls w ! c)\<lparr>reply := v, resMetadata := Metadata res\<rparr>] \<and>
    map_of (pending_map w') = (map_of (pending_map w))(Seq (Header res) := None)"
proof -
  obtain w1 where take: "take_pending (Seq (Header res)) w = (Some c, w1)"
    using assms(2) by (simp add: take_pending_def)
  note tp = take_pending_wf [OF take assms(1)]
  have w1: "calls w1 = calls w" "map_of (pending_map w1) = (map_of (pending_map w))(Seq (Header res) := None)"
    using take by (auto simp: take_pending_def pending_map_def split: option.splits)
  let ?f = "\<lambda>x. x\<lparr>reply := v, call_Error := call_Error (calls w ! c), resMetadata := Metadata res\<rparr>"
  let ?w' = "call_done c (update_call c ?f w1)"
  have "decode_reply lib res (reply (calls w ! c)) (call_Error (calls w ! c)) = (v, call_Error (calls w ! c), None)"
    using assms(6-9) by (simp add: decode_reply_def Let_def)
  then have "handle_message lib res w = (None, Reset res, ?w')"
    using assms(3-5) take w1(1) by (simp add: handle_message_def Let_def Request_def Response_def)
  moreover have "delivered ?w' c"
    using tp(1) tp(3) [of c] by (intro complete_delivered tp(2)) (simp_all add: evolves_def)
  moreover have "calls ?w' = (calls w)[c := (calls w ! c)\<lparr>reply := v, resMetadata := Metadata res\<rparr>]"
    by (simp add: update_call_def w1)
  moreover have "map_of (pending_map ?w') = (map_of (pending_map w))(Seq (Header res) := None)"
    using w1(2) by (simp add: pending_map_def)
  ultimately show ?thesis by blast
qed


definition sample_response :: message where
  "sample_response = NewMessage\<lparr>Header := SetSerializeType MsgPack (SetMessageType Response (Header NewMessage)),
     Payload := StringToByte ''42''\<rparr>"

lemma sample_response_fields:
  "Seq (Header sample_response) = 0" "MessageType (Header sample_response) = Response"
  "MessageStatusType (Header sample_response) \<noteq> Error" "\<not> IsHeartbeat (Header sample_response)"
  "CompressType (Header sample_response) \<noteq> Gzip" "SerializeType (Header sample_response) = MsgPack"
  by code_simp+

lemma sample_sys_wf: "wf_store (fst sample_sys)" "map_of (pending_map (fst sample_sys)) 0 = Some 0"
  by (simp_all add: sample_sys_def fresh_call_def new_conn_def wf_store_def pending_map_def Let_def)


end
