(* ===== verification/Client_Spec.thy ===== *)
theory Client_Spec
  imports Client_Steps
begin

text \<open>
  What a connection promises to its callers, as an abstract machine over the outstanding and the
  finished calls, the proof that the interleaved goroutines implement it, and the behaviour of the
  connection on cancellation and on errors.
\<close>

section \<open>The abstract connection\<close>

text \<open>The outstanding calls by sequence number, and the finished ones.\<close>

type_synonym spec_state = "(u64 \<rightharpoonup> nat) \<times> nat set"

text \<open>
  A step starts a call under an unused number, or takes calls off the table, each of which is then
  finished; a finished call stays finished.
\<close>

inductive spec_step :: "spec_state \<Rightarrow> spec_state \<Rightarrow> bool" where
  begin_call: "\<lbrakk>k \<notin> dom out; c \<notin> ran out\<rbrakk> \<Longrightarrow> spec_step (out, fin) (out(k \<mapsto> c), fin)"
| finish_calls: "\<lbrakk>out' \<subseteq>\<^sub>m out; ran out - ran out' \<subseteq> fin'; fin \<subseteq> fin'\<rbrakk> \<Longrightarrow> spec_step (out, fin) (out', fin')"

definition abs_conn :: "'a sys \<Rightarrow> spec_state" where
  "abs_conn s = (case s of (w, fl, rc) \<Rightarrow>
     (map_of (pending_map w), {c. c < length (calls w) \<and> delivered w c}))"

lemma settles_spec:
  assumes "settles w w'" and "wf_store w" and sub: "set (pending_map w') \<subseteq> set (pending_map w)"
  shows "spec_step (abs_conn (w, fl, rc)) (abs_conn (w', fl', rc'))"
proof -
  have wf': "wf_store w'" and ev: "evolves w w'" using assms(1) by (auto simp: settles_def)
  have dist: "distinct (map fst (pending_map w))" "distinct (map fst (pending_map w'))"
    using assms(2) wf' by (auto simp: wf_store_def)
  have in_out: "map_of (pending_map w) k = Some c \<longleftrightarrow> (k, c) \<in> set (pending_map w)"
    "map_of (pending_map w') k = Some c \<longleftrightarrow> (k, c) \<in> set (pending_map w')" for k c
    using dist by (simp_all add: map_of_eq_Some_iff)
  have len: "length (calls w') = length (calls w)" using ev by (simp add: evolves_def)
  show ?thesis
    unfolding abs_conn_def prod.case
  proof (rule finish_calls)
    show "map_of (pending_map w') \<subseteq>\<^sub>m map_of (pending_map w)"
      using sub in_out by (force simp: map_le_def)
    show "ran (map_of (pending_map w)) - ran (map_of (pending_map w')) \<subseteq> {c. c < length (calls w') \<and> delivered w' c}"
      using assms(1,2) in_out len by (fastforce simp: ran_def settles_def wf_store_def)
    show "{c. c < length (calls w) \<and> delivered w c} \<subseteq> {c. c < length (calls w') \<and> delivered w' c}"
      using evolves_delivered [OF ev assms(2)] len by auto
  qed
qed

text \<open>No operation but registration adds to the table.\<close>

lemma take_pending_subset: "take_pending sq w = (p, w1) \<Longrightarrow> set (pending_map w1) \<subseteq> set (pending_map w)"
  by (auto simp: take_pending_def pending_map_def AList.delete_eq split: option.splits)

lemma pending_map_simps [simp]:
  "pending_map (fail_call c e w) = pending_map w" "pending_map (call_done c w) = pending_map w"
  "pending_map (update_call c f w) = pending_map w"
  by (simp_all add: pending_map_def)

lemma fail_all_pending: "wf_store w \<Longrightarrow> pending_map (fail_all e w) = pending_map w"
  using fail_all_completes(3) [of w e] by (simp add: pending_map_def)

lemma transmit_subset:
  "send_transmit lib choice werr c sq w = Some w' \<Longrightarrow> set (pending_map w') \<subseteq> set (pending_map w)"
  by (auto simp: send_transmit_def Let_def split: prod.splits sum.splits option.splits if_splits
      dest!: take_pending_subset) (blast+)?

lemma receive_subset:
  "handle_message lib res w = (err, res', w') \<Longrightarrow> set (pending_map w') \<subseteq> set (pending_map w)"
  by (auto simp: handle_message_def Let_def split: prod.splits option.splits if_splits
      dest!: take_pending_subset)

lemma cancel_subset: "call_cancel e w = (err, w') \<Longrightarrow> set (pending_map w') \<subseteq> set (pending_map w)"
  by (auto simp: call_cancel_def split: prod.splits option.splits dest!: take_pending_subset)

lemma close_subset: "close_conn cerr w = (err, w') \<Longrightarrow> set (pending_map w') \<subseteq> set (pending_map w)"
  by (cases "pending (fail_all ErrShutdown w)")
    (auto simp: close_conn_def Let_def pending_map_def split: if_splits)

lemma leave_subset: "wf_store w \<Longrightarrow> set (pending_map (handle_end e w)) \<subseteq> set (pending_map w)"
proof -
  assume "wf_store w"
  then have "wf_store (w\<lparr>shutdown := True\<rparr>)" by (simp add: wf_store_def pending_map_def)
  from fail_all_pending [OF this] show ?thesis by (auto simp: handle_end_def Let_def pending_map_def)
qed

lemma register_spec:
  assumes wf: "wf_store w"
    and reg: "send_register (length (calls w)) (fresh_call ctx path method a r w) = (p, w2)"
  shows "spec_step (abs_conn (w, fl, rc)) (abs_conn (w2, fl', rc'))"
proof -
  let ?c = "length (calls w)"
  define w1 where "w1 = fresh_call ctx path method a r w"
  note w1 = fresh_call_store [OF wf w1_def]
  have pm1: "pending_map w1 = pending_map w" by (simp add: pending_map_def w1(3))
  from reg [folded w1_def] show ?thesis
  proof (cases rule: send_register_cases)
    case (failed e)
    have "{c. c < ?c \<and> delivered w c} \<subseteq> {c. c < length (calls w2) \<and> delivered w2 c}"
      using evolves_delivered [OF fail_call_evolves w1(1), of _ ?c e] w1(2,6)
      by (auto simp: failed fail_call_def)
    then show ?thesis
      using pm1 failed by (auto simp: abs_conn_def intro: finish_calls)
  next
    case queued
    have fresh: "seq w \<notin> fst ` set (pending_map w)" "?c \<notin> snd ` set (pending_map w)"
      using wf by (auto simp: wf_store_def)
    have out: "map_of (pending_map w2) = (map_of (pending_map w))(seq w \<mapsto> ?c)"
      using queued w1 pm1 by (simp add: pending_map_def)
    have "\<not> delivered w2 ?c"
      by (simp add: queued w1_def fresh_call_def delivered_def nth_append)
    moreover have "delivered w2 c \<longleftrightarrow> delivered w c" if "c < ?c" for c
      using w1(6) that queued by (simp add: delivered_def)
    moreover have "length (calls w2) = Suc ?c" using queued w1 by simp
    ultimately have fin: "{c. c < length (calls w2) \<and> delivered w2 c} = {c. c < ?c \<and> delivered w c}"
      by (auto simp: less_Suc_eq)
    have "?c \<notin> ran (map_of (pending_map w))" using fresh(2) by (force simp: ran_def dest: map_of_SomeD)
    then show ?thesis
      unfolding abs_conn_def prod.case out fin
      using fresh(1) by (intro begin_call) (simp_all add: dom_map_of_conv_image_fst)
  qed
qed



section \<open>Cancellation and errors\<close>


definition two_calls :: "string conn" where
  "two_calls = (let w = fresh_call \<lparr>ReqMetaDataKey = None, ResMetaDataKey = None\<rparr> ''Arith'' ''Add'' ''y'' '''' (fst sample_sys)
     in w\<lparr>seq := 2, pending := Some [(0, 0), (1, 1)]\<rparr>)"

lemma two_calls_wf: "wf_store two_calls" "pending_map two_calls = [(0, 0), (1, 1)]"
  by (auto simp: two_calls_def sample_sys_def fresh_call_def new_conn_def wf_store_def pending_map_def Let_def
      less_Suc_eq)


text \<open>C31: One reply that cannot be decoded ends the connection.  The receive loop uses the error of the
  codec as its own loop variable: after such a reply it stops, and every other pending call, whose
  reply may already be on its way, fails with that codec error; the connection refuses all later
  requests.\<close>

theorem bad_reply_ends_connection:
  assumes "Decode mx res0 r = (Done, res, r')" and "wf_store w"
    and "map_of (pending_map w) (Seq (Header res)) = Some c"
    and "MessageType (Header res) = Response" and "MessageStatusType (Header res) \<noteq> Error"
    and "\<not> IsHeartbeat (Header res)" and "CompressType (Header res) \<noteq> Gzip" and "Payload res \<noteq> []"
    and "Codecs (SerializeType (Header res)) = Some cd"
    and "codec_Decode (codec_lib lib) cd (Payload res) (reply (calls w ! c)) = (v, Some e)" and "e \<noteq> EOF"
    and "map_of (pending_map w) k = Some d" and "k \<noteq> Seq (Header res)"
  shows "\<exists>w'. handleResponse lib mx res0 r w = Some w' \<and> shutdown w' \<and>
    call_Error (calls w' ! d) = Some e \<and> delivered w' d"
proof -
  obtain w1 where take: "take_pending (Seq (Header res)) w = (Some c, w1)"
    using assms(3) by (simp add: take_pending_def)
  note tp = take_pending_wf [OF take assms(2)]
  have w1: "calls w1 = calls w" using take by (auto simp: take_pending_def)
  let ?f = "\<lambda>x. x\<lparr>reply := v, call_Error := Some (ServiceErr (error_text e)), resMetadata := Metadata res\<rparr>"
  define w2 where "w2 = call_done c (update_call c ?f w1)"
  have "decode_reply lib res (reply (calls w ! c)) ce = (v, Some (ServiceErr (error_text e)), Some e)" for ce
    using assms(7-10) by (simp add: decode_reply_def Let_def)
  then have msg: "handle_message lib res w = (Some e, Reset res, w2)"
    using assms(4-6) take w1 by (simp add: handle_message_def Let_def Request_def Response_def w2_def)
  have wf2: "wf_store w2"
    using settles_receive [OF assms(2) msg] by (simp add: settles_def)
  have kd: "(k, d) \<in> set (pending_map w2)"
    using tp(5) [of k d] assms(12,13) by (simp add: w2_def map_of_SomeD)
  define w3 where "w3 = w2\<lparr>shutdown := True\<rparr>"
  have wf3: "wf_store w3" "(k, d) \<in> set (pending_map w3)"
    using wf2 kd by (simp_all add: w3_def wf_store_def pending_map_def)
  have "handleResponse lib mx res0 r w = Some (handle_end e w2)"
    by (subst handleResponse.simps) (simp add: assms(1) msg)
  moreover have "handle_end e w2 = fail_all e w3" using assms(11) by (simp add: handle_end_def w3_def Let_def)
  ultimately show ?thesis
    using handle_end_wf(2,3) [OF wf2, where e = e] kd fail_all_error [OF wf3] by auto
qed

lemma sample_response_decodes:
  "\<exists>res. Decode 0 NewMessage \<lparr>avail = frame sample_response, rerr = EOF\<rparr> = (Done, res, \<lparr>avail = [], rerr = EOF\<rparr>) \<and>
     Header res = Header sample_response \<and> Payload res = Payload sample_response"
proof -
  have "wf_message sample_response"
    by (simp add: wf_message_def sample_response_def body_def encodeMetadata_def NewMessage_def StringToByte_def)
      (simp add: wf_header_def SetSerializeType_def SetMessageType_def)
  then show ?thesis
    using Decode_frame [of sample_response NewMessage 0 "[]" EOF]
    by (simp add: received_def within_limit_def)
qed

text \<open>The sample codec with decoding that always fails.\<close>

definition broken_libs :: "(string, bytes, bytes) libs" where
  "broken_libs = store_libs\<lparr>codec_lib := store_codec\<lparr>mp_Unmarshal := (\<lambda>b r. (r, Some (NewError ''msgpack'')))\<rparr>\<rparr>"

theorem bad_reply_ends_connection_witness:
  "\<exists>w'. handleResponse broken_libs 0 NewMessage \<lparr>avail = frame sample_response, rerr = EOF\<rparr> two_calls = Some w' \<and>
     shutdown w' \<and> call_Error (calls w' ! 1) = Some (NewError ''msgpack'')"
proof -
  obtain res where dec: "Decode 0 NewMessage \<lparr>avail = frame sample_response, rerr = EOF\<rparr> = (Done, res, \<lparr>avail = [], rerr = EOF\<rparr>)"
    and res: "Header res = Header sample_response" "Payload res = Payload sample_response"
    using sample_response_decodes by blast
  have "Codecs MsgPack = Some MsgpackCodec" by (simp add: Codecs_def JSON_def ProtoBuffer_def MsgPack_def)
  moreover have "codec_Decode (codec_lib broken_libs) MsgpackCodec b r = (r, Some (NewError ''msgpack''))" for b r
    by (simp add: codec_Decode_def broken_libs_def)
  moreover have "Payload sample_response \<noteq> []" by (simp add: sample_response_def StringToByte_def)
  ultimately show ?thesis
    using bad_reply_ends_connection [OF dec two_calls_wf(1), of 0 MsgpackCodec broken_libs
        "reply (calls two_calls ! 0)" "NewError ''msgpack''" 1 1] two_calls_wf(2) res sample_response_fields
    by auto
qed

end
