(* ===== verification/Ratelimit.thy ===== *)
theory Ratelimit
  imports Breaker
begin

text \<open>
  \<open>src/controller/ratelimit.go\<close> and the token bucket it uses,
  \<open>src/vendor/github.com/juju/ratelimit/ratelimit.go\<close>.  Times are nanoseconds.  The \<open>int64\<close>
  arithmetic of the bucket wraps around.
\<close>

section \<open>The token bucket\<close>

definition int64 :: "int \<Rightarrow> int" where
  "int64 x = (x + 2 ^ 63) mod 2 ^ 64 - 2 ^ 63"

lemma int64_id [simp]: "- (2 ^ 63) \<le> x \<Longrightarrow> x < 2 ^ 63 \<Longrightarrow> int64 x = x"
  by (simp add: int64_def)

text \<open>Integer division of Go, which truncates.\<close>

definition quot :: "int \<Rightarrow> int \<Rightarrow> int" where
  "quot a b = sgn a * sgn b * (\<bar>a\<bar> div \<bar>b\<bar>)"

lemma quot_nonneg: "0 \<le> a \<Longrightarrow> 0 < b \<Longrightarrow> quot a b = a div b"
  by (cases "a = 0") (simp_all add: quot_def)

record Bucket =
  startTime :: int
  capacity :: int
  quantum :: int
  fillInterval :: int
  availableTokens :: int
  latestTick :: int

text \<open>\<open>NewBucket\<close>, with the clock's reading; \<open>None\<close> is a panic.\<close>

definition NewBucket :: "int \<Rightarrow> int \<Rightarrow> int \<Rightarrow> Bucket option" where
  "NewBucket now fill cpc =
     (if fill \<le> 0 then None
      else if cpc \<le> 0 then None
      else Some \<lparr>startTime = now, capacity = cpc, quantum = 1, fillInterval = fill,
                 availableTokens = cpc, latestTick = 0\<rparr>)"

definition currentTick :: "int \<Rightarrow> Bucket \<Rightarrow> int" where
  "currentTick now tb = quot (time_Sub now (startTime tb)) (fillInterval tb)"

definition adjustavailableTokens :: "int \<Rightarrow> Bucket \<Rightarrow> Bucket" where
  "adjustavailableTokens tick tb =
     (if availableTokens tb \<ge> capacity tb then tb
      else
        let a = int64 (availableTokens tb + int64 (int64 (tick - latestTick tb) * quantum tb));
            a = (if a > capacity tb then capacity tb else a)
        in tb\<lparr>availableTokens := a, latestTick := tick\<rparr>)"

definition takeAvailable :: "int \<Rightarrow> int \<Rightarrow> Bucket \<Rightarrow> int \<times> Bucket" where
  "takeAvailable now count tb =
     (if count \<le> 0 then (0, tb)
      else
        let tb = adjustavailableTokens (currentTick now tb) tb
        in if availableTokens tb \<le> 0 then (0, tb)
           else
             let count = (if count > availableTokens tb then availableTokens tb else count)
             in (count, tb\<lparr>availableTokens := int64 (availableTokens tb - count)\<rparr>))"

section \<open>The controller\<close>

record RateLimit =
  FillInterval :: int
  Capacity :: int
  bucket :: Bucket

definition NewConnConcurrentLimit :: "int \<Rightarrow> int \<Rightarrow> int \<Rightarrow> RateLimit option" where
  "NewConnConcurrentLimit now fill cpc =
     map_option (\<lambda>tb. \<lparr>FillInterval = fill, Capacity = cpc, bucket = tb\<rparr>) (NewBucket now fill cpc)"

definition RateLimit_HandleConn :: "int \<Rightarrow> RateLimit \<Rightarrow> bool \<times> RateLimit" where
  "RateLimit_HandleConn now r =
     (let (i, tb) = takeAvailable now 1 (bucket r) in (i > 0, r\<lparr>bucket := tb\<rparr>))"

text \<open>The answers to connections that arrive at the given times.\<close>

primrec admissions :: "int list \<Rightarrow> RateLimit \<Rightarrow> bool list" where
  "admissions [] r = []"
| "admissions (now # nows) r =
     (let (ok, r) = RateLimit_HandleConn now r in ok # admissions nows r)"

section \<open>The bucket invariant\<close>

text \<open>The bucket as its constructor and its operations leave it, far from the ends of the integer range.\<close>

definition bucket_ok :: "Bucket \<Rightarrow> bool" where
  "bucket_ok tb \<longleftrightarrow> quantum tb = 1 \<and> 0 < fillInterval tb \<and> 0 < capacity tb \<and> capacity tb < 2 ^ 62 \<and>
     0 \<le> availableTokens tb \<and> availableTokens tb \<le> capacity tb \<and> 0 \<le> latestTick tb"

definition tick_of :: "Bucket \<Rightarrow> int \<Rightarrow> int" where
  "tick_of tb now = (now - startTime tb) div fillInterval tb"

text \<open>Times at which the bucket may be used.\<close>

definition in_range :: "Bucket \<Rightarrow> int \<Rightarrow> bool" where
  "in_range tb now \<longleftrightarrow> startTime tb \<le> now \<and> now - startTime tb < 2 ^ 62 \<and> latestTick tb \<le> tick_of tb now"

lemma currentTick_tick_of:
  assumes "0 < fillInterval tb" and "startTime tb \<le> now" and "now - startTime tb < 2 ^ 62"
  shows "currentTick now tb = tick_of tb now"
  using assms by (simp add: currentTick_def tick_of_def time_Sub_def quot_nonneg max_def min_def)

lemma tick_of_bounds:
  assumes "bucket_ok tb" and "in_range tb now"
  shows "0 \<le> tick_of tb now" and "tick_of tb now < 2 ^ 62"
proof -
  have "0 < fillInterval tb" "0 \<le> now - startTime tb" "now - startTime tb < 2 ^ 62"
    using assms by (simp_all add: bucket_ok_def in_range_def)
  moreover have "(now - startTime tb) div fillInterval tb \<le> now - startTime tb"
    using zdiv_mono2 [of "now - startTime tb" 1 "fillInterval tb"] calculation(1,2) by simp
  ultimately show "0 \<le> tick_of tb now" "tick_of tb now < 2 ^ 62"
    by (simp_all add: tick_of_def pos_imp_zdiv_nonneg_iff)
qed

lemma tick_of_mono: "bucket_ok tb \<Longrightarrow> s \<le> t \<Longrightarrow> tick_of tb s \<le> tick_of tb t"
  by (simp add: tick_of_def bucket_ok_def zdiv_mono1)

text \<open>Tokens that a bucket below its capacity has at a tick.\<close>

definition tokens_at :: "Bucket \<Rightarrow> int \<Rightarrow> int" where
  "tokens_at tb now = min (capacity tb) (availableTokens tb + (tick_of tb now - latestTick tb))"

lemma adjust_below:
  assumes "bucket_ok tb" and "in_range tb now" and "availableTokens tb < capacity tb"
  shows "adjustavailableTokens (tick_of tb now) tb =
    tb\<lparr>availableTokens := tokens_at tb now, latestTick := tick_of tb now\<rparr>"
  using assms tick_of_bounds [OF assms(1,2)]
  by (simp add: adjustavailableTokens_def tokens_at_def bucket_ok_def in_range_def Let_def min_def)

lemma adjust_full:
  "availableTokens tb = capacity tb \<Longrightarrow> adjustavailableTokens n tb = tb"
  by (simp add: adjustavailableTokens_def)

lemma RateLimit_HandleConn_eq:
  assumes "bucket_ok (bucket r)" and "in_range (bucket r) now"
    and "tb = adjustavailableTokens (tick_of (bucket r) now) (bucket r)"
  shows "RateLimit_HandleConn now r =
    (if availableTokens tb \<le> 0 then (False, r\<lparr>bucket := tb\<rparr>)
     else (True, r\<lparr>bucket := tb\<lparr>availableTokens := availableTokens tb - 1\<rparr>\<rparr>))"
proof -
  have "currentTick now (bucket r) = tick_of (bucket r) now"
    using assms(1,2) by (intro currentTick_tick_of) (simp_all add: bucket_ok_def in_range_def)
  moreover have "availableTokens tb \<le> capacity (bucket r)"
    using assms by (simp add: adjustavailableTokens_def bucket_ok_def Let_def)
  ultimately show ?thesis
    using assms(1) by (simp add: RateLimit_HandleConn_def takeAvailable_def bucket_ok_def Let_def flip: assms(3))
qed

text \<open>One connection at a bucket below its capacity: a token is taken if there is one.\<close>

lemma HandleConn_below:
  assumes "bucket_ok (bucket r)" and "in_range (bucket r) now"
    and "availableTokens (bucket r) < capacity (bucket r)"
    and "RateLimit_HandleConn now r = (ok, r')"
  shows "ok = (0 < tokens_at (bucket r) now)"
    and "bucket r' = (bucket r)\<lparr>availableTokens := tokens_at (bucket r) now - (if ok then 1 else 0),
      latestTick := tick_of (bucket r) now\<rparr>"
    and "0 \<le> tokens_at (bucket r) now"
proof -
  note adj = adjust_below [OF assms(1-3)]
  note eq = RateLimit_HandleConn_eq [OF assms(1,2) adj [symmetric]]
  show nonneg: "0 \<le> tokens_at (bucket r) now"
    using assms(1,2) by (simp add: tokens_at_def bucket_ok_def in_range_def)
  show ok: "ok = (0 < tokens_at (bucket r) now)"
    using eq assms(4) by (auto split: if_splits)
  show "bucket r' = (bucket r)\<lparr>availableTokens := tokens_at (bucket r) now - (if ok then 1 else 0),
      latestTick := tick_of (bucket r) now\<rparr>"
    using eq assms(4) ok nonneg by (auto split: if_splits)
qed

section \<open>How many connections are admitted\<close>

definition admitted :: "int list \<Rightarrow> RateLimit \<Rightarrow> nat" where
  "admitted nows r = count_list (admissions nows r) True"

lemma admitted_Nil [simp]: "admitted [] r = 0"
  by (simp add: admitted_def)

lemma admitted_Cons:
  "RateLimit_HandleConn now r = (ok, r') \<Longrightarrow> admitted (now # nows) r = (if ok then 1 else 0) + admitted nows r'"
  by (simp add: admitted_def)

text \<open>Below its capacity a bucket admits at most its tokens and those of the ticks that pass.\<close>

lemma admitted_below:
  assumes "bucket_ok (bucket r)" and "availableTokens (bucket r) < capacity (bucket r)"
    and "sorted (now # nows)" and "in_range (bucket r) now"
    and "last (now # nows) - startTime (bucket r) < 2 ^ 62"
  shows "int (admitted (now # nows) r) \<le>
    tokens_at (bucket r) now + (tick_of (bucket r) (last (now # nows)) - tick_of (bucket r) now)"
  using assms
proof (induction nows arbitrary: r now)
  case Nil
  obtain ok r' where h: "RateLimit_HandleConn now r = (ok, r')" by (cases "RateLimit_HandleConn now r")
  then show ?case
    using HandleConn_below(1,3) [OF Nil.prems(1,4,2) h] by (simp add: admitted_Cons)
next
  case (Cons t nows)
  let ?b = "bucket r"
  obtain ok r' where h: "RateLimit_HandleConn now r = (ok, r')" by (cases "RateLimit_HandleConn now r")
  note step = HandleConn_below [OF Cons.prems(1,4,2) h]
  have le: "now \<le> t" "t \<le> last (t # nows)" using Cons.prems(3) by auto
  have t: "tick_of ?b now \<le> tick_of ?b t" by (rule tick_of_mono [OF Cons.prems(1) le(1)])
  have ticks: "tick_of (bucket r') x = tick_of ?b x" for x by (simp add: step(2) tick_of_def)
  have cap: "tokens_at ?b now \<le> capacity ?b" by (simp add: tokens_at_def)
  have pos: "0 < capacity ?b" using Cons.prems(1) by (simp add: bucket_ok_def)
  have ok': "bucket_ok (bucket r')"
    using Cons.prems(1) step(1,3) cap tick_of_bounds(1) [OF Cons.prems(1,4)]
    by (simp add: step(2) bucket_ok_def)
  have below: "availableTokens (bucket r') < capacity (bucket r')"
    using step(1,3) cap pos by (simp add: step(2))
  have range': "in_range (bucket r') t"
    using Cons.prems(4,5) t le by (simp add: step(2) in_range_def tick_of_def)
  have "int (admitted (t # nows) r') \<le>
      tokens_at (bucket r') t + (tick_of (bucket r') (last (t # nows)) - tick_of (bucket r') t)"
    using Cons.IH [OF ok' below _ range'] Cons.prems(3,5) by (simp add: step(2))
  moreover have "tokens_at (bucket r') t \<le>
      tokens_at ?b now - (if ok then 1 else 0) + (tick_of ?b t - tick_of ?b now)"
    unfolding tokens_at_def [of "bucket r'"] ticks by (simp add: step(2))
  ultimately show ?case by (cases ok; cases "nows = []") (simp_all add: admitted_Cons [OF h] ticks)
qed

text \<open>A full bucket keeps an old tick; the first connection leaves it one token below its capacity.\<close>

lemma HandleConn_full:
  assumes "bucket_ok (bucket r)" and "in_range (bucket r) now"
    and "availableTokens (bucket r) = capacity (bucket r)"
  shows "RateLimit_HandleConn now r =
    (True, r\<lparr>bucket := (bucket r)\<lparr>availableTokens := capacity (bucket r) - 1\<rparr>\<rparr>)"
  using RateLimit_HandleConn_eq [OF assms(1,2) refl] assms(1,3)
  by (simp add: adjust_full bucket_ok_def)

text \<open>C15: The limiter bounds the connections admitted in any stretch of time: at most the capacity, one
  more, and one for every fill interval that begins in between, whatever the arrival times and the
  state of the bucket.\<close>

theorem RateLimit_bound:
  assumes "bucket_ok (bucket r)" and "sorted (now # nows)" and "in_range (bucket r) now"
    and "last (now # nows) - startTime (bucket r) < 2 ^ 62"
  shows "int (admitted (now # nows) r) \<le>
    capacity (bucket r) + 1 + (tick_of (bucket r) (last (now # nows)) - tick_of (bucket r) now)"
proof (cases "availableTokens (bucket r) < capacity (bucket r)")
  case True
  then show ?thesis
    using admitted_below [OF assms(1) True assms(2-4)] by (simp add: tokens_at_def)
next
  case False
  let ?b = "bucket r" and ?r = "r\<lparr>bucket := (bucket r)\<lparr>availableTokens := capacity (bucket r) - 1\<rparr>\<rparr>"
  have full: "availableTokens ?b = capacity ?b" using False assms(1) by (simp add: bucket_ok_def)
  note h = admitted_Cons [OF HandleConn_full [OF assms(1,3) full]]
  show ?thesis
  proof (cases nows)
    case Nil
    then show ?thesis using assms(1) by (simp add: h bucket_ok_def)
  next
    case (Cons t ts)
    have ok: "bucket_ok (bucket ?r)" using assms(1) by (simp add: bucket_ok_def)
    have t: "now \<le> t" "tick_of ?b now \<le> tick_of ?b t" "t \<le> last (t # ts)"
      using assms(1,2) tick_of_mono by (auto simp: Cons)
    have range: "in_range (bucket ?r) t"
      using assms(3,4) t by (auto simp: in_range_def tick_of_def Cons)
    have "int (admitted nows ?r) \<le> tokens_at (bucket ?r) t + (tick_of ?b (last nows) - tick_of ?b t)"
      using admitted_below [OF ok _ _ range, of ts] assms(2,4) by (simp add: Cons tick_of_def)
    moreover have "tokens_at (bucket ?r) t \<le> capacity ?b" by (simp add: tokens_at_def)
    ultimately show ?thesis using t(2) by (simp add: h Cons)
  qed
qed

definition sample_limit :: RateLimit where
  "sample_limit = the (NewConnConcurrentLimit 0 1000 2)"

lemma sample_limit_ok:
  "bucket sample_limit = \<lparr>startTime = 0, capacity = 2, quantum = 1, fillInterval = 1000,
     availableTokens = 2, latestTick = 0\<rparr>"
  "bucket_ok (bucket sample_limit)"
  by (simp_all add: sample_limit_def NewConnConcurrentLimit_def NewBucket_def bucket_ok_def)

theorem RateLimit_bound_witness:
  "int (admitted [5000, 5000, 5000, 5000, 6100] sample_limit) \<le> 2 + 1 + (6 - 5)"
  using RateLimit_bound [of sample_limit 5000 "[5000, 5000, 5000, 6100]"] sample_limit_ok
  by (simp add: in_range_def tick_of_def)

text \<open>Connections that arrive together at a bucket that is below its capacity get its tokens.\<close>

lemma admissions_together:
  assumes "bucket_ok (bucket r)" and "in_range (bucket r) now"
    and "availableTokens (bucket r) < capacity (bucket r)"
  shows "admissions (replicate n now) r = map (\<lambda>i. int i < tokens_at (bucket r) now) [0..<n]"
  using assms
proof (induction n arbitrary: r)
  case (Suc n)
  let ?b = "bucket r"
  obtain ok r' where h: "RateLimit_HandleConn now r = (ok, r')" by (cases "RateLimit_HandleConn now r")
  note step = HandleConn_below [OF Suc.prems h]
  have cap: "tokens_at ?b now \<le> capacity ?b" "0 < capacity ?b"
    using Suc.prems(1) by (simp_all add: tokens_at_def bucket_ok_def)
  have ok': "bucket_ok (bucket r')"
    using Suc.prems(1) step(1,3) cap tick_of_bounds(1) [OF Suc.prems(1,2)]
    by (simp add: step(2) bucket_ok_def)
  have range': "in_range (bucket r') now" "availableTokens (bucket r') < capacity (bucket r')"
    using Suc.prems(2) step(1,3) cap by (simp_all add: step(2) in_range_def tick_of_def)
  have "tokens_at (bucket r') now = tokens_at ?b now - (if ok then 1 else 0)"
    using cap unfolding tokens_at_def [of "bucket r'"] by (simp add: step(2) tick_of_def min_def)
  then have "admissions (replicate n now) r' =
      map (\<lambda>i. int i < tokens_at ?b now - (if ok then 1 else 0)) [0..<n]"
    using Suc.IH [OF ok' range'] by simp
  then show ?case
    using step(1,3) by (simp add: h upt_conv_Cons map_Suc_upt [symmetric] del: upt_Suc) auto
qed simp

text \<open>C36: The bound is reached: a limiter that has been idle since it was made, for at least one fill
  interval, admits one connection more than its capacity at one instant, because a full bucket does
  not remember the time that passed.  The next connection is refused.\<close>

theorem RateLimit_burst:
  assumes "NewConnConcurrentLimit start fill cpc = Some r" and "cpc < 2 ^ 62"
    and "start + fill \<le> now" and "now - start < 2 ^ 62"
  shows "admissions (replicate (nat cpc + 2) now) r = replicate (nat cpc + 1) True @ [False]"
proof -
  have b: "0 < fill" "0 < cpc" "bucket r = \<lparr>startTime = start, capacity = cpc, quantum = 1, fillInterval = fill,
      availableTokens = cpc, latestTick = 0\<rparr>"
    using assms(1) by (auto simp: NewConnConcurrentLimit_def NewBucket_def split: if_splits)
  let ?r = "r\<lparr>bucket := (bucket r)\<lparr>availableTokens := capacity (bucket r) - 1\<rparr>\<rparr>"
  have "fill div fill \<le> (now - start) div fill"
    using b(1) assms(3) by (intro zdiv_mono1) simp_all
  then have tick: "1 \<le> (now - start) div fill" using b(1) by simp
  have ok: "bucket_ok (bucket r)" "in_range (bucket r) now"
    using assms b tick by (simp_all add: bucket_ok_def in_range_def tick_of_def)
  have ok': "bucket_ok (bucket ?r)" "in_range (bucket ?r) now"
    using ok b by (simp_all add: bucket_ok_def in_range_def tick_of_def)
  have "admissions (replicate (nat cpc + 1) now) ?r = map (\<lambda>i. int i < cpc) [0..<nat cpc + 1]"
    using admissions_together [OF ok', of "nat cpc + 1"] b tick by (simp add: tokens_at_def tick_of_def)
  also have "\<dots> = replicate (nat cpc) True @ [False]"
    using b(2) by (simp add: list_eq_iff_nth_eq nth_append) (simp add: zless_nat_eq_int_zless)
  finally show ?thesis
    using HandleConn_full [OF ok] b(3) by simp
qed

theorem RateLimit_burst_witness:
  "admissions (replicate (nat 2 + 2) 5000) sample_limit = replicate (nat 2 + 1) True @ [False]"
  by (rule RateLimit_burst [of 0 1000])
    (simp_all add: sample_limit_def NewConnConcurrentLimit_def NewBucket_def)

end
