(* ===== verification/Controller.thy ===== *)
theory Controller
  imports Ratelimit Codec
begin

text \<open>
  \<open>src/controller\<close> and \<open>src/server/server_controller.go\<close>: the controllers a server can have, which
  count, trace or refuse connections and requests, and the chain that calls them.  A result of
  \<open>None\<close> is a panic.

  Of the vendored \<open>go-metrics\<close> registry the model keeps what is registered under which name and how
  often it was used; of \<open>golang.org/x/net/trace\<close> the entries made, with their format and arguments.
\<close>

section \<open>Metrics\<close>

text \<open>Gauges and timers only stand for their kind: the controllers never read or set one.\<close>

datatype metric = Counter int | Meter nat | Histogram "int list" | Gauge | GaugeFloat64 | Timer

type_synonym registry = "(string \<times> metric) list"

record Metric =
  Registry :: registry
  Prefix :: string

definition NewMetric :: "registry \<Rightarrow> Metric" where
  "NewMetric DefaultRegistry = \<lparr>Registry = DefaultRegistry, Prefix = ''''\<rparr>"

definition withPrefix :: "Metric \<Rightarrow> string \<Rightarrow> string" where
  "withPrefix m s = Prefix m @ s"

text \<open>
  \<open>Registry.GetOrRegister\<close>, and the three uses of it: each asserts the type of what it got, which
  panics when the name is taken by a metric of another kind.
\<close>

definition GetOrRegister :: "string \<Rightarrow> metric \<Rightarrow> registry \<Rightarrow> metric \<times> registry" where
  "GetOrRegister name i r =
     (case map_of r name of Some x \<Rightarrow> (x, r) | None \<Rightarrow> (i, AList.update name i r))"

definition Counter_Inc :: "string \<Rightarrow> Metric \<Rightarrow> Metric option" where
  "Counter_Inc name m =
     (case GetOrRegister name (Counter 0) (Registry m) of
        (Counter n, r) \<Rightarrow> Some (m\<lparr>Registry := AList.update name (Counter (int64 (n + 1))) r\<rparr>)
      | _ \<Rightarrow> None)"

definition Meter_Mark :: "string \<Rightarrow> Metric \<Rightarrow> Metric option" where
  "Meter_Mark name m =
     (case GetOrRegister name (Meter 0) (Registry m) of
        (Meter n, r) \<Rightarrow> Some (m\<lparr>Registry := AList.update name (Meter (n + 1)) r\<rparr>)
      | _ \<Rightarrow> None)"

definition Histogram_Update :: "string \<Rightarrow> int \<Rightarrow> Metric \<Rightarrow> Metric option" where
  "Histogram_Update name t m =
     (case GetOrRegister name (Histogram []) (Registry m) of
        (Histogram ts, r) \<Rightarrow> Some (m\<lparr>Registry := AList.update name (Histogram (ts @ [t])) r\<rparr>)
      | _ \<Rightarrow> None)"

text \<open>
  The metrics of the run-time system.  \<open>Registry.Register\<close> refuses a name that is taken;
  \<open>RegisterRuntimeMemStats\<close> drops that error.
\<close>

definition StandardRegistry_Register :: "string \<Rightarrow> metric \<Rightarrow> registry \<Rightarrow> go_error option \<times> registry" where
  "StandardRegistry_Register name i r =
     (case map_of r name of
        Some _ \<Rightarrow> (Some (NewError (''duplicate metric: '' @ name)), r)
      | None \<Rightarrow> (None, AList.update name i r))"

definition runtime_metrics :: "(string \<times> metric) list" where
  "runtime_metrics =
     [(''runtime.MemStats.Alloc'', Gauge), (''runtime.MemStats.BuckHashSys'', Gauge), (''runtime.MemStats.DebugGC'', Gauge),
      (''runtime.MemStats.EnableGC'', Gauge), (''runtime.MemStats.Frees'', Gauge), (''runtime.MemStats.HeapAlloc'', Gauge),
      (''runtime.MemStats.HeapIdle'', Gauge), (''runtime.MemStats.HeapInuse'', Gauge), (''runtime.MemStats.HeapObjects'', Gauge),
      (''runtime.MemStats.HeapReleased'', Gauge), (''runtime.MemStats.HeapSys'', Gauge), (''runtime.MemStats.LastGC'', Gauge),
      (''runtime.MemStats.Lookups'', Gauge), (''runtime.MemStats.Mallocs'', Gauge), (''runtime.MemStats.MCacheInuse'', Gauge),
      (''runtime.MemStats.MCacheSys'', Gauge), (''runtime.MemStats.MSpanInuse'', Gauge), (''runtime.MemStats.MSpanSys'', Gauge),
      (''runtime.MemStats.NextGC'', Gauge), (''runtime.MemStats.NumGC'', Gauge), (''runtime.MemStats.GCCPUFraction'', GaugeFloat64),
      (''runtime.MemStats.PauseNs'', Histogram []), (''runtime.MemStats.PauseTotalNs'', Gauge), (''runtime.MemStats.StackInuse'', Gauge),
      (''runtime.MemStats.StackSys'', Gauge), (''runtime.MemStats.Sys'', Gauge), (''runtime.MemStats.TotalAlloc'', Gauge),
      (''runtime.NumCgoCall'', Gauge), (''runtime.NumGoroutine'', Gauge), (''runtime.NumThread'', Gauge),
      (''runtime.ReadMemStats'', Timer)]"

definition RegisterRuntimeMemStats :: "registry \<Rightarrow> registry" where
  "RegisterRuntimeMemStats r = fold (\<lambda>(name, i) r. snd (StandardRegistry_Register name i r)) runtime_metrics r"

definition Metric_Register :: "Metric \<Rightarrow> Metric option" where
  "Metric_Register m = Counter_Inc (withPrefix m ''serviceCounter'') m"

definition Metric_HandleConn :: "Metric \<Rightarrow> Metric option" where
  "Metric_HandleConn p = Meter_Mark (withPrefix p ''clientMeter'') p"

definition Metric_PostRequest :: "message \<Rightarrow> Metric \<Rightarrow> Metric option" where
  "Metric_PostRequest req p =
     (let sp = ServicePath req; sm = ServiceMethod req
      in if sp = '''' then Some p
         else Meter_Mark (withPrefix p (''service.'' @ sp @ ''.'' @ sm @ ''.Read_Qps'')) p)"

text \<open>
  \<open>start\<close> is the value of the context under \<open>StartRequestContextKey\<close>, \<open>now\<close> the clock; 30 minutes
  in nanoseconds bound the times recorded.
\<close>

definition Metric_PostResponse :: "int option \<Rightarrow> int \<Rightarrow> message \<Rightarrow> Metric \<Rightarrow> Metric option" where
  "Metric_PostResponse start now res p =
     (let sp = ServicePath res; sm = ServiceMethod res
      in if sp = '''' then Some p
         else
           (case Meter_Mark (withPrefix p (''service.'' @ sp @ ''.'' @ sm @ ''.Write_Qps'')) p of
              None \<Rightarrow> None
            | Some p \<Rightarrow>
                (case start of
                   None \<Rightarrow> None
                 | Some t \<Rightarrow>
                     if t > 0 then
                       let t = int64 (now - t)
                       in if t < 30 * 60 * 1000000000
                          then Histogram_Update (withPrefix p (''service.'' @ sp @ ''.'' @ sm @ ''.CallTime'')) t p
                          else Some p
                     else Some p)))"

section \<open>Traces\<close>

datatype trace_arg = Str_arg string | Seq_arg u64 | Err_arg go_error | Type_arg string | Func_arg

record trace_entry =
  tr_title :: string
  tr_format :: string
  tr_args :: "trace_arg list"
  tr_error :: bool

type_synonym Trace = "trace_entry list"

definition Trace_Register :: "string \<Rightarrow> string \<Rightarrow> Trace \<Rightarrow> Trace" where
  "Trace_Register name rcvr tr =
     tr @ [\<lparr>tr_title = ''Register'', tr_format = ''register %s: %T'',
            tr_args = [Str_arg name, Type_arg rcvr], tr_error = False\<rparr>]"

definition Trace_HandleConn :: "string \<Rightarrow> Trace \<Rightarrow> Trace" where
  "Trace_HandleConn addr tr =
     tr @ [\<lparr>tr_title = ''AcceptConn'', tr_format = ''accept conn %s'', tr_args = [Str_arg addr], tr_error = False\<rparr>]"

definition Trace_PostRequest :: "message \<Rightarrow> Trace \<Rightarrow> Trace" where
  "Trace_PostRequest req tr =
     tr @ [\<lparr>tr_title = ''ReadRequest'', tr_format = ''read request %s.%s, seq: %d'',
            tr_args = [Str_arg (ServicePath req), Str_arg (ServiceMethod req), Seq_arg (Seq (Header req))],
            tr_error = False\<rparr>]"

text \<open>The entry for a failed call passes the method value \<open>req.Seq\<close> before the arguments of its format.\<close>

definition Trace_PostResponse :: "message \<Rightarrow> go_error option \<Rightarrow> Trace \<Rightarrow> Trace" where
  "Trace_PostResponse req err tr =
     tr @ [case err of
             None \<Rightarrow>
               \<lparr>tr_title = ''WriteResponse'', tr_format = ''succeed to call %s.%s, seq: %d'',
                tr_args = [Str_arg (ServicePath req), Str_arg (ServiceMethod req), Seq_arg (Seq (Header req))],
                tr_error = False\<rparr>
           | Some e \<Rightarrow>
               \<lparr>tr_title = ''WriteResponse'', tr_format = ''failed to call %s.%s, seq: %d : %v'',
                tr_args = [Func_arg, Str_arg (ServicePath req), Str_arg (ServiceMethod req),
                           Seq_arg (Seq (Header req)), Err_arg e],
                tr_error = True\<rparr>]"

section \<open>Exporters\<close>

text \<open>
  The goroutines that publish metrics and traces: what they are started with.  \<open>ExportListner\<close> always
  listens on the same port, whatever its argument.  \<open>resolve\<close> is \<open>net.ResolveTCPAddr\<close>, whose error is
  dropped.
\<close>

datatype export =
    Export_HTTP string
  | Export_MemStats int
  | Export_Log int
  | Export_Graphite int string "string option"
  | Export_InfluxDB int string string string string

definition NewTrace :: Trace where
  "NewTrace = []"

definition ExportListner :: "string \<Rightarrow> Trace \<Rightarrow> export \<times> Trace" where
  "ExportListner addr tr = (Export_HTTP '':8088'', tr)"

text \<open>\<open>CaptureRunTimeStats\<close>; the goroutine it starts reads the statistics every second.\<close>

definition CaptureRunTimeStats :: "Metric \<Rightarrow> export \<times> Metric" where
  "CaptureRunTimeStats p =
     (Export_MemStats 1000000000, p\<lparr>Registry := RegisterRuntimeMemStats (Registry p)\<rparr>)"

definition Metric_Log :: "int \<Rightarrow> Metric \<Rightarrow> export \<times> Metric" where
  "Metric_Log freq p = (Export_Log freq, p)"

definition Metric_Graphite :: "(string \<Rightarrow> string option) \<Rightarrow> int \<Rightarrow> string \<Rightarrow> string \<Rightarrow> Metric \<Rightarrow> export \<times> Metric" where
  "Metric_Graphite resolve freq prefix url p = (Export_Graphite freq prefix (resolve url), p)"

definition Metric_InfluxDB :: "int \<Rightarrow> string \<Rightarrow> string \<Rightarrow> string \<Rightarrow> string \<Rightarrow> Metric \<Rightarrow> export \<times> Metric" where
  "Metric_InfluxDB freq url database username password p = (Export_InfluxDB freq url database username password, p)"

section \<open>The interface\<close>

datatype controller = C_Metric Metric | C_Trace Trace | C_RateLimit RateLimit

fun ctl_Register :: "string \<Rightarrow> string \<Rightarrow> controller \<Rightarrow> (go_error option \<times> controller) option" where
  "ctl_Register name rcvr (C_Metric m) = map_option (\<lambda>m. (None, C_Metric m)) (Metric_Register m)"
| "ctl_Register name rcvr (C_Trace tr) = Some (None, C_Trace (Trace_Register name rcvr tr))"
| "ctl_Register name rcvr (C_RateLimit r) = Some (None, C_RateLimit r)"

fun ctl_HandleConn :: "string \<Rightarrow> int \<Rightarrow> controller \<Rightarrow> (bool \<times> controller) option" where
  "ctl_HandleConn addr now (C_Metric m) = map_option (\<lambda>m. (True, C_Metric m)) (Metric_HandleConn m)"
| "ctl_HandleConn addr now (C_Trace tr) = Some (True, C_Trace (Trace_HandleConn addr tr))"
| "ctl_HandleConn addr now (C_RateLimit r) =
     (let (ok, r) = RateLimit_HandleConn now r in Some (ok, C_RateLimit r))"

fun ctl_PostRequest :: "message \<Rightarrow> controller \<Rightarrow> (go_error option \<times> controller) option" where
  "ctl_PostRequest req (C_Metric m) = map_option (\<lambda>m. (None, C_Metric m)) (Metric_PostRequest req m)"
| "ctl_PostRequest req (C_Trace tr) = Some (None, C_Trace (Trace_PostRequest req tr))"
| "ctl_PostRequest req (C_RateLimit r) = Some (None, C_RateLimit r)"

fun ctl_PostResponse ::
    "int option \<Rightarrow> int \<Rightarrow> message \<Rightarrow> message \<Rightarrow> go_error option \<Rightarrow> controller
      \<Rightarrow> (go_error option \<times> controller) option" where
  "ctl_PostResponse start now req res err (C_Metric m) =
     map_option (\<lambda>m. (None, C_Metric m)) (Metric_PostResponse start now res m)"
| "ctl_PostResponse start now req res err (C_Trace tr) = Some (None, C_Trace (Trace_PostResponse req err tr))"
| "ctl_PostResponse start now req res err (C_RateLimit r) = Some (None, C_RateLimit r)"

section \<open>The chain of a server\<close>

text \<open>
  \<open>controllerServer.Register\<close> calls every controller and collects the errors; \<open>PostRequest\<close> and
  \<open>PostResponse\<close> stop at the first error; \<open>HandleConn\<close> stops at the first controller that refuses the
  connection.  \<open>op\<close> is the method of the interface and \<open>clk i\<close> the clock read by the \<open>i\<close>-th controller.
\<close>

fun chain_all ::
    "('c \<Rightarrow> (go_error option \<times> 'c) option) \<Rightarrow> 'c list \<Rightarrow> (go_error list \<times> 'c list) option" where
  "chain_all op [] = Some ([], [])"
| "chain_all op (c # cs) =
     (case op c of
        None \<Rightarrow> None
      | Some (err, c) \<Rightarrow>
          (case chain_all op cs of
             None \<Rightarrow> None
           | Some (es, cs) \<Rightarrow> Some ((case err of None \<Rightarrow> es | Some e \<Rightarrow> e # es), c # cs)))"

fun chain_until ::
    "('c \<Rightarrow> (go_error option \<times> 'c) option) \<Rightarrow> 'c list \<Rightarrow> (go_error option \<times> 'c list) option" where
  "chain_until op [] = Some (None, [])"
| "chain_until op (c # cs) =
     (case op c of
        None \<Rightarrow> None
      | Some (Some e, c) \<Rightarrow> Some (Some e, c # cs)
      | Some (None, c) \<Rightarrow> map_option (\<lambda>(e, cs). (e, c # cs)) (chain_until op cs))"

fun chain_conn ::
    "(int \<Rightarrow> 'c \<Rightarrow> (bool \<times> 'c) option) \<Rightarrow> (nat \<Rightarrow> int) \<Rightarrow> 'c list \<Rightarrow> (bool \<times> 'c list) option" where
  "chain_conn op clk [] = Some (True, [])"
| "chain_conn op clk (c # cs) =
     (case op (clk 0) c of
        None \<Rightarrow> None
      | Some (False, c) \<Rightarrow> Some (False, c # cs)
      | Some (True, c) \<Rightarrow> map_option (\<lambda>(ok, cs). (ok, c # cs)) (chain_conn op (\<lambda>i. clk (Suc i)) cs))"

definition controllerServer_Register ::
    "string \<Rightarrow> string \<Rightarrow> controller list \<Rightarrow> (go_error option \<times> controller list) option" where
  "controllerServer_Register name rcvr cs =
     map_option (\<lambda>(es, cs). (if length es > 0 then Some (NewMultiError es) else None, cs))
       (chain_all (ctl_Register name rcvr) cs)"

definition controllerServer_HandleConn ::
    "string \<Rightarrow> (nat \<Rightarrow> int) \<Rightarrow> controller list \<Rightarrow> (bool \<times> controller list) option" where
  "controllerServer_HandleConn addr clk cs = chain_conn (ctl_HandleConn addr) clk cs"

definition controllerServer_PostRequest ::
    "message \<Rightarrow> controller list \<Rightarrow> (go_error option \<times> controller list) option" where
  "controllerServer_PostRequest req cs = chain_until (ctl_PostRequest req) cs"

definition controllerServer_PostResponse ::
    "int option \<Rightarrow> int \<Rightarrow> message \<Rightarrow> message \<Rightarrow> go_error option \<Rightarrow> controller list
      \<Rightarrow> (go_error option \<times> controller list) option" where
  "controllerServer_PostResponse start now req res err cs = chain_until (ctl_PostResponse start now req res err) cs"

section \<open>What the server relies on\<close>

text \<open>
  The contract of a controller: its methods return, without an error, and keep its invariant; only
  \<open>HandleConn\<close> may refuse.
\<close>

locale controllers =
  fixes invar :: "'c \<Rightarrow> bool"
    and register_op :: "string \<Rightarrow> string \<Rightarrow> 'c \<Rightarrow> (go_error option \<times> 'c) option"
    and conn_op :: "string \<Rightarrow> int \<Rightarrow> 'c \<Rightarrow> (bool \<times> 'c) option"
    and request_op :: "message \<Rightarrow> 'c \<Rightarrow> (go_error option \<times> 'c) option"
    and response_op :: "int option \<Rightarrow> int \<Rightarrow> message \<Rightarrow> message \<Rightarrow> go_error option \<Rightarrow> 'c
      \<Rightarrow> (go_error option \<times> 'c) option"
  assumes register_ok: "invar c \<Longrightarrow> \<exists>c'. register_op name rcvr c = Some (None, c') \<and> invar c'"
    and conn_ok: "invar c \<Longrightarrow> \<exists>ok c'. conn_op addr now c = Some (ok, c') \<and> invar c'"
    and request_ok: "invar c \<Longrightarrow> \<exists>c'. request_op req c = Some (None, c') \<and> invar c'"
    and response_ok: "invar c \<Longrightarrow> \<exists>c'. response_op (Some start) now req res err c = Some (None, c') \<and> invar c'"
begin

lemma chain_until_ok:
  assumes "\<And>c. invar c \<Longrightarrow> \<exists>c'. op c = Some (None, c') \<and> invar c'" and "list_all invar cs"
  shows "\<exists>cs'. chain_until op cs = Some (None, cs') \<and> list_all invar cs' \<and> length cs' = length cs"
  using assms(2)
proof (induction cs)
  case (Cons c cs)
  obtain c' where "op c = Some (None, c')" "invar c'" using assms(1) Cons.prems by auto
  moreover obtain cs' where "chain_until op cs = Some (None, cs')" "list_all invar cs'" "length cs' = length cs"
    using Cons by auto
  ultimately show ?case by simp
qed simp

lemma chain_register_ok:
  assumes "list_all invar cs"
  shows "\<exists>cs'. chain_all (register_op name rcvr) cs = Some ([], cs') \<and> list_all invar cs' \<and> length cs' = length cs"
  using assms
proof (induction cs)
  case (Cons c cs)
  obtain c' where "register_op name rcvr c = Some (None, c')" "invar c'" using register_ok Cons.prems by fastforce
  moreover obtain cs' where "chain_all (register_op name rcvr) cs = Some ([], cs')" "list_all invar cs'" "length cs' = length cs"
    using Cons by auto
  ultimately show ?case by simp
qed simp

lemma chain_conn_ok:
  assumes "list_all invar cs"
  shows "\<exists>ok cs'. chain_conn (conn_op addr) clk cs = Some (ok, cs') \<and> list_all invar cs' \<and> length cs' = length cs"
  using assms
proof (induction cs arbitrary: clk)
  case (Cons c cs)
  obtain ok c' where c: "conn_op addr (clk 0) c = Some (ok, c')" "invar c'" using conn_ok Cons.prems by fastforce
  moreover obtain ok' cs' where "chain_conn (conn_op addr) (\<lambda>i. clk (Suc i)) cs = Some (ok', cs')"
    "list_all invar cs'" "length cs' = length cs"
    using Cons.IH [of "\<lambda>i. clk (Suc i)"] Cons.prems by auto
  ultimately show ?case using Cons.prems by (cases ok) auto
qed auto

lemma chain_request_ok:
  "list_all invar cs \<Longrightarrow>
   \<exists>cs'. chain_until (request_op req) cs = Some (None, cs') \<and> list_all invar cs' \<and> length cs' = length cs"
  by (rule chain_until_ok [OF request_ok])

lemma chain_response_ok:
  "list_all invar cs \<Longrightarrow>
   \<exists>cs'. chain_until (response_op (Some start) now req res err) cs = Some (None, cs') \<and>
     list_all invar cs' \<and> length cs' = length cs"
  by (rule chain_until_ok [OF response_ok])

end

section \<open>The controllers keep the contract\<close>

text \<open>
  The kind of a metric is determined by its name, so no name is used for two kinds: those for services
  have a \<open>v\<close> in them and end in \<open>s\<close> or \<open>e\<close>, the counter and the meter of clients end in \<open>r\<close>; those of
  the run-time system have none and do not.
\<close>

fun metric_named :: "string \<Rightarrow> string \<Rightarrow> metric \<Rightarrow> bool" where
  "metric_named p k (Counter n) = (k = p @ ''serviceCounter'')"
| "metric_named p k (Meter n) = (k = p @ ''clientMeter'' \<or> CHR ''v'' \<in> set k \<and> last k = CHR ''s'')"
| "metric_named p k (Histogram ts) = (CHR ''v'' \<in> set k \<and> last k = CHR ''e'' \<or> k = ''runtime.MemStats.PauseNs'')"
| "metric_named p k x = (k \<in> fst ` set runtime_metrics)"

lemma runtime_names:
  assumes "k \<in> fst ` set runtime_metrics"
  shows "CHR ''v'' \<notin> set k" and "last k \<noteq> CHR ''r''"
proof -
  have "\<forall>k \<in> fst ` set runtime_metrics. CHR ''v'' \<notin> set k \<and> last k \<noteq> CHR ''r''"
    by (simp add: runtime_metrics_def)
  then show "CHR ''v'' \<notin> set k" "last k \<noteq> CHR ''r''" using assms by auto
qed

text \<open>So a name tells the kind of what is registered under it.\<close>

lemma metric_named_kind:
  assumes "metric_named p k x"
  shows "k = p @ ''serviceCounter'' \<Longrightarrow> \<exists>n. x = Counter n"
    and "k = p @ ''clientMeter'' \<or> CHR ''v'' \<in> set k \<and> last k = CHR ''s'' \<Longrightarrow> \<exists>n. x = Meter n"
    and "CHR ''v'' \<in> set k \<Longrightarrow> last k = CHR ''e'' \<Longrightarrow> \<exists>ts. x = Histogram ts"
proof -
  have rt: "k \<notin> fst ` set runtime_metrics" if "CHR ''v'' \<in> set k \<or> last k = CHR ''r''"
    using that runtime_names by blast
  have pause: "CHR ''v'' \<notin> set ''runtime.MemStats.PauseNs''" "last ''runtime.MemStats.PauseNs'' \<noteq> CHR ''r''" by simp_all
  show "\<exists>n. x = Counter n" if "k = p @ ''serviceCounter''"
    using assms that rt by (cases x) auto
  show "\<exists>n. x = Meter n" if "k = p @ ''clientMeter'' \<or> CHR ''v'' \<in> set k \<and> last k = CHR ''s''"
    using assms that rt pause by (cases x) auto
  show "\<exists>ts. x = Histogram ts" if "CHR ''v'' \<in> set k" "last k = CHR ''e''"
    using assms that rt by (cases x) auto
qed

definition metric_ok :: "Metric \<Rightarrow> bool" where
  "metric_ok m \<longleftrightarrow> distinct (map fst (Registry m)) \<and> (\<forall>(k, x) \<in> set (Registry m). metric_named (Prefix m) k x)"

definition controller_ok :: "controller \<Rightarrow> bool" where
  "controller_ok c = (case c of C_Metric m \<Rightarrow> metric_ok m | _ \<Rightarrow> True)"

lemma metric_ok_iff:
  "metric_ok m \<longleftrightarrow> distinct (map fst (Registry m)) \<and>
     (\<forall>k x. map_of (Registry m) k = Some x \<longrightarrow> metric_named (Prefix m) k x)"
  unfolding metric_ok_def by (auto simp: map_of_eq_Some_iff dest: map_of_SomeD)

lemma metric_ok_update:
  assumes "metric_ok m" and "metric_named (Prefix m) k x"
  shows "metric_ok (m\<lparr>Registry := AList.update k x (Registry m)\<rparr>)"
  using assms by (simp add: metric_ok_iff distinct_AList_update)

text \<open>Using a name for the kind it ends in works and keeps the registry in order.\<close>

lemma GetOrRegister_cases:
  assumes "metric_ok m" and "metric_named (Prefix m) k i" and "GetOrRegister k i (Registry m) = (x, r)"
  shows "metric_named (Prefix m) k x" and "metric_ok (m\<lparr>Registry := r\<rparr>)"
  using assms metric_ok_update [OF assms(1,2)]
  by (auto simp: GetOrRegister_def metric_ok_iff split: option.splits)

lemma Counter_Inc_ok:
  assumes "metric_ok m"
  shows "\<exists>m'. Counter_Inc (Prefix m @ ''serviceCounter'') m = Some m' \<and> metric_ok m' \<and> Prefix m' = Prefix m"
proof -
  let ?k = "Prefix m @ ''serviceCounter''"
  obtain x r where g: "GetOrRegister ?k (Counter 0) (Registry m) = (x, r)" by fastforce
  note ok = GetOrRegister_cases [OF assms _ g]
  obtain n where "x = Counter n" using metric_named_kind(1) [OF ok(1)] by auto
  then show ?thesis using ok(2) g metric_ok_update [OF ok(2)] by (simp add: Counter_Inc_def)
qed

lemma Meter_Mark_ok:
  assumes "metric_ok m" and "k = Prefix m @ ''clientMeter'' \<or> CHR ''v'' \<in> set k \<and> last k = CHR ''s''"
  shows "\<exists>m'. Meter_Mark k m = Some m' \<and> metric_ok m' \<and> Prefix m' = Prefix m"
proof -
  obtain x r where g: "GetOrRegister k (Meter 0) (Registry m) = (x, r)" by fastforce
  note ok = GetOrRegister_cases [OF assms(1) _ g]
  obtain n where "x = Meter n" using metric_named_kind(2) [OF ok(1)] assms(2) by auto
  then show ?thesis using ok(2) assms(2) g metric_ok_update [OF ok(2)] by (simp add: Meter_Mark_def)
qed

lemma Histogram_Update_ok:
  assumes "metric_ok m" and "CHR ''v'' \<in> set k" and "last k = CHR ''e''"
  shows "\<exists>m'. Histogram_Update k t m = Some m' \<and> metric_ok m' \<and> Prefix m' = Prefix m"
proof -
  obtain x r where g: "GetOrRegister k (Histogram []) (Registry m) = (x, r)" by fastforce
  note ok = GetOrRegister_cases [OF assms(1) _ g]
  obtain ts where "x = Histogram ts" using metric_named_kind(3) [OF ok(1)] assms(2,3) by auto
  then show ?thesis using ok(2) assms(2,3) g metric_ok_update [OF ok(2)] by (simp add: Histogram_Update_def)
qed

lemma Metric_PostRequest_ok:
  "metric_ok m \<Longrightarrow> \<exists>m'. Metric_PostRequest req m = Some m' \<and> metric_ok m'"
  using Meter_Mark_ok [of m "withPrefix m (''service.'' @ ServicePath req @ ''.'' @ ServiceMethod req @ ''.Read_Qps'')"]
  by (auto simp: Metric_PostRequest_def Let_def withPrefix_def)

lemma Metric_PostResponse_ok:
  assumes "metric_ok m"
  shows "\<exists>m'. Metric_PostResponse (Some start) now res m = Some m' \<and> metric_ok m'"
proof -
  let ?n = "\<lambda>s. ''service.'' @ ServicePath res @ ''.'' @ ServiceMethod res @ s"
  obtain m1 where m1: "Meter_Mark (Prefix m @ ?n ''.Write_Qps'') m = Some m1" "metric_ok m1" "Prefix m1 = Prefix m"
    using Meter_Mark_ok [OF assms, of "Prefix m @ ?n ''.Write_Qps''"] by auto
  obtain m2 where "Histogram_Update (Prefix m @ ?n ''.CallTime'') (int64 (now - start)) m1 = Some m2" "metric_ok m2"
    using Histogram_Update_ok [OF m1(2), of "Prefix m @ ?n ''.CallTime''"] by auto
  then show ?thesis using assms m1 by (simp add: Metric_PostResponse_def Let_def withPrefix_def)
qed

lemma StandardRegistry_Register_ok:
  assumes "metric_ok m" and "metric_named (Prefix m) k x"
  shows "metric_ok (m\<lparr>Registry := snd (StandardRegistry_Register k x (Registry m))\<rparr>)"
  using assms metric_ok_update [OF assms] by (simp add: StandardRegistry_Register_def split: option.splits)

lemma CaptureRunTimeStats_ok:
  assumes "metric_ok m"
  shows "metric_ok (snd (CaptureRunTimeStats m))"
proof -
  have "metric_ok (m\<lparr>Registry := fold (\<lambda>(name, i) r. snd (StandardRegistry_Register name i r)) ms (Registry m)\<rparr>)"
    if "\<forall>(k, x) \<in> set ms. metric_named (Prefix m) k x" for ms
    using assms that
  proof (induction ms arbitrary: m)
    case (Cons nx ms)
    obtain k x where nx: "nx = (k, x)" by (cases nx)
    let ?m = "m\<lparr>Registry := snd (StandardRegistry_Register k x (Registry m))\<rparr>"
    have "metric_ok ?m" using Cons.prems nx by (intro StandardRegistry_Register_ok) auto
    from Cons.IH [OF this] Cons.prems show ?case by (simp add: nx)
  qed simp
  moreover have "\<forall>(k, x) \<in> set runtime_metrics. metric_named (Prefix m) k x"
    by (simp add: runtime_metrics_def)
  ultimately show ?thesis by (simp add: CaptureRunTimeStats_def RegisterRuntimeMemStats_def)
qed

lemma controller_ok_simps [simp]:
  "controller_ok (C_Metric m) = metric_ok m" "controller_ok (C_Trace tr)" "controller_ok (C_RateLimit r)"
  by (simp_all add: controller_ok_def)

interpretation ctl: controllers controller_ok ctl_Register ctl_HandleConn ctl_PostRequest ctl_PostResponse
proof
  fix c :: controller and name rcvr addr :: string and now start :: int and req res :: message and err
  assume ok: "controller_ok c"
  show "\<exists>c'. ctl_Register name rcvr c = Some (None, c') \<and> controller_ok c'"
  proof (cases c)
    case (C_Metric m)
    then show ?thesis using Counter_Inc_ok [of m] ok by (auto simp: Metric_Register_def withPrefix_def)
  qed simp_all
  show "\<exists>ok c'. ctl_HandleConn addr now c = Some (ok, c') \<and> controller_ok c'"
  proof (cases c)
    case (C_Metric m)
    then show ?thesis
      using Meter_Mark_ok [of m "Prefix m @ ''clientMeter''"] ok by (auto simp: Metric_HandleConn_def withPrefix_def)
  next
    case (C_RateLimit r)
    then show ?thesis by (cases "RateLimit_HandleConn now r") simp
  qed auto
  show "\<exists>c'. ctl_PostRequest req c = Some (None, c') \<and> controller_ok c'"
  proof (cases c)
    case (C_Metric m)
    then show ?thesis using Metric_PostRequest_ok [of m req] ok by auto
  qed simp_all
  show "\<exists>c'. ctl_PostResponse (Some start) now req res err c = Some (None, c') \<and> controller_ok c'"
  proof (cases c)
    case (C_Metric m)
    then show ?thesis using Metric_PostResponse_ok [of m start now res] ok by auto
  qed simp_all
qed

text \<open>C16: The type assertions of the metrics never fail.  Whatever service and method names arrive in
  requests, no metric name is used for two kinds of metric, so no method of any chain of controllers
  panics or returns an error: registering, accepting, reading and answering all go through, and
  leave the controllers ready for the next.  Registering the metrics of the run-time system with one of
  the controllers does not change that.\<close>

theorem controllers_never_panic:
  assumes ok: "list_all controller_ok cs"
  shows "(\<exists>cs'. controllerServer_Register name rcvr cs = Some (None, cs') \<and> list_all controller_ok cs') \<and>
    (\<exists>ok cs'. controllerServer_HandleConn addr clk cs = Some (ok, cs') \<and> list_all controller_ok cs') \<and>
    (\<exists>cs'. controllerServer_PostRequest req cs = Some (None, cs') \<and> list_all controller_ok cs') \<and>
    (\<exists>cs'. controllerServer_PostResponse (Some start) now req res err cs = Some (None, cs') \<and>
      list_all controller_ok cs') \<and>
    (\<forall>m. C_Metric m \<in> set cs \<longrightarrow> controller_ok (C_Metric (snd (CaptureRunTimeStats m))))"
proof -
  have "controller_ok (C_Metric (snd (CaptureRunTimeStats m)))" if "C_Metric m \<in> set cs" for m
    using that ok CaptureRunTimeStats_ok [of m] by (auto simp: list_all_iff)
  then show ?thesis
    using ctl.chain_register_ok [OF ok, of name rcvr] ctl.chain_conn_ok [OF ok, of addr clk]
      ctl.chain_request_ok [OF ok, of req] ctl.chain_response_ok [OF ok, of start now req res err]
    by (auto simp: controllerServer_Register_def controllerServer_HandleConn_def
        controllerServer_PostRequest_def controllerServer_PostResponse_def)
qed

definition sample_controllers :: "controller list" where
  "sample_controllers = [C_Metric (NewMetric []), C_Trace [], C_RateLimit sample_limit]"

lemma sample_controllers_ok: "list_all controller_ok sample_controllers"
  by (simp add: sample_controllers_def NewMetric_def metric_ok_def)

theorem controllers_never_panic_witness:
  "list_all controller_ok sample_controllers \<and>
   (\<exists>cs'. controllerServer_PostRequest (NewMessage\<lparr>ServicePath := ''a'', ServiceMethod := ''.CallTime''\<rparr>)
      sample_controllers = Some (None, cs') \<and> list_all controller_ok cs')"
  using controllers_never_panic [OF sample_controllers_ok] sample_controllers_ok by blast

end
