(* ===== verification/Service.thy ===== *)
theory Service
  imports Controller Go_Strings
begin

text \<open>
  \<open>src/server/service.go\<close>: registering receivers as services, and calling their methods.  What
  \<open>reflect\<close> tells about a receiver is data here; a method is the function it computes on the
  state \<open>'s\<close> of the application.
\<close>

section \<open>Reflection\<close>

text \<open>A type by its package path and name, both empty for unnamed types, or a pointer to a type.\<close>

datatype go_type = Named string string | Ptr go_type

fun Kind_Ptr :: "go_type \<Rightarrow> bool" where
  "Kind_Ptr (Ptr t) = True"
| "Kind_Ptr (Named p n) = False"

fun Elem :: "go_type \<Rightarrow> go_type" where
  "Elem (Ptr t) = t"
| "Elem (Named p n) = Named p n"

fun type_Name :: "go_type \<Rightarrow> string" where
  "type_Name (Named p n) = n"
| "type_Name (Ptr t) = ''''"

fun PkgPath :: "go_type \<Rightarrow> string" where
  "PkgPath (Named p n) = p"
| "PkgPath (Ptr t) = ''''"

definition typeOfError :: go_type where
  "typeOfError = Named '''' ''error''"

text \<open>
  What a method does: it gets the application's state, the request metadata and the response
  metadata map of its context, the argument and the reply; it returns or panics, with the state,
  the response metadata and the reply as it left them.  A panic carries the text of its value.
\<close>

datatype outcome = Returned "go_error option" | Panicked string

type_synonym ('s, 'a) handler = "'s \<Rightarrow> strmap option \<Rightarrow> strmap \<Rightarrow> 'a \<Rightarrow> 'a \<Rightarrow> outcome \<times> 's \<times> strmap \<times> 'a"

text \<open>A method of a receiver type, with the receiver as first parameter.\<close>

record ('s, 'a) go_method =
  gm_Name :: string
  gm_PkgPath :: string
  gm_In :: "go_type list"
  gm_Out :: "go_type list"
  gm_Func :: "('s, 'a) handler"

record ('s, 'a) rcvr =
  rv_type :: go_type
  rv_text :: string
  rv_methods :: "('s, 'a) go_method list"

text \<open>
  Parameters: the upper-case letters beyond Latin-1, which types implement \<open>context.Context\<close>, and
  the zero values that \<open>reflect.New\<close> makes.
\<close>

record 'a reflect_libs =
  upper_table :: "nat \<Rightarrow> bool"
  Implements_Context :: "go_type \<Rightarrow> bool"
  zero_value :: "go_type \<Rightarrow> 'a"

section \<open>Exported names\<close>

definition IsUpper :: "'a reflect_libs \<Rightarrow> nat \<Rightarrow> bool" where
  "IsUpper lib r =
     (if r \<le> 0xFF then 0x41 \<le> r \<and> r \<le> 0x5A \<or> 0xC0 \<le> r \<and> r \<le> 0xD6 \<or> 0xD8 \<le> r \<and> r \<le> 0xDE
      else upper_table lib r)"

definition isExported :: "'a reflect_libs \<Rightarrow> string \<Rightarrow> bool" where
  "isExported lib name = IsUpper lib (DecodeRune (map of_char name))"

fun isExportedOrBuiltinType :: "'a reflect_libs \<Rightarrow> go_type \<Rightarrow> bool" where
  "isExportedOrBuiltinType lib (Ptr t) = isExportedOrBuiltinType lib t"
| "isExportedOrBuiltinType lib (Named p n) = (isExported lib n \<or> p = '''')"

section \<open>Services\<close>

record ('s, 'a) methodType =
  mt_func :: "('s, 'a) handler"
  argType :: go_type
  replyType :: go_type
  numCalls :: u64

record ('s, 'a) service =
  sv_name :: string
  sv_typ :: go_type
  sv_method :: "(string \<times> ('s, 'a) methodType) list"

text \<open>The tests of \<open>suitableMethods\<close> on one method, in their order.\<close>

definition suitable :: "'a reflect_libs \<Rightarrow> ('s, 'a) go_method \<Rightarrow> bool" where
  "suitable lib m =
     (if gm_PkgPath m \<noteq> '''' then False
      else if length (gm_In m) \<noteq> 4 then False
      else if \<not> Implements_Context lib (gm_In m ! 1) then False
      else if \<not> isExportedOrBuiltinType lib (gm_In m ! 2) then False
      else if \<not> Kind_Ptr (gm_In m ! 3) then False
      else if \<not> isExportedOrBuiltinType lib (gm_In m ! 3) then False
      else if length (gm_Out m) \<noteq> 1 then False
      else gm_Out m ! 0 = typeOfError)"

definition method_entry :: "('s, 'a) go_method \<Rightarrow> ('s, 'a) methodType" where
  "method_entry m = \<lparr>mt_func = gm_Func m, argType = gm_In m ! 2, replyType = gm_In m ! 3, numCalls = 0\<rparr>"

definition suitableMethods ::
    "'a reflect_libs \<Rightarrow> ('s, 'a) go_method list \<Rightarrow> (string \<times> ('s, 'a) methodType) list" where
  "suitableMethods lib typ =
     foldl (\<lambda>methods m. if suitable lib m then AList.update (gm_Name m) (method_entry m) methods else methods) [] typ"

text \<open>\<open>service.call\<close>: the count of calls goes up, and a panic of the method becomes an error.\<close>

definition service_call ::
    "('s, 'a) methodType \<Rightarrow> strmap option \<Rightarrow> strmap \<Rightarrow> 'a \<Rightarrow> 'a \<Rightarrow> 's
      \<Rightarrow> go_error option \<times> ('s, 'a) methodType \<times> 's \<times> strmap \<times> 'a" where
  "service_call mtype reqMeta resMeta argv replyv app =
     (let mtype = mtype\<lparr>numCalls := numCalls mtype + 1\<rparr>;
          (out, app, resMeta, replyv) = mt_func mtype app reqMeta resMeta argv replyv
      in ((case out of Returned err \<Rightarrow> err | Panicked v \<Rightarrow> Some (NewError (''internal error: '' @ v))),
          mtype, app, resMeta, replyv))"

section \<open>The server\<close>

record server_option =
  so_readTimeout :: int
  so_writeTimeout :: int
  so_BlockCrypt :: "nat option"
  so_tlsConfig :: "nat option"
  so_rpcPath :: string

text \<open>
  The server: \<open>doneChan\<close> is nil, open or closed; connections and listeners are numbered; \<open>'g\<close> is the
  state of the registry it may have, \<open>app\<close> the state of the application.
\<close>

record ('s, 'a, 'g) Server =
  sv_option :: server_option
  serviceMap :: "(string \<times> ('s, 'a) service) list option"
  doneChan :: "bool option"
  sv_ln :: "nat option"
  activeConn :: "nat list option"
  sv_registry :: "'g option"
  sv_controllers :: "controller list"
  serviceAddress :: string
  app :: 's

definition service_map :: "('s, 'a, 'g) Server \<Rightarrow> (string \<times> ('s, 'a) service) list" where
  "service_map s = (case serviceMap s of None \<Rightarrow> [] | Some m \<Rightarrow> m)"

definition NewServer :: "'s \<Rightarrow> ('s, 'a, 'g) Server" where
  "NewServer st =
     \<lparr>sv_option = \<lparr>so_readTimeout = 0, so_writeTimeout = 0, so_BlockCrypt = None, so_tlsConfig = None,
                   so_rpcPath = ''''\<rparr>,
      serviceMap = None, doneChan = None, sv_ln = None, activeConn = None, sv_registry = None,
      sv_controllers = [], serviceAddress = '''', app = st\<rparr>"

definition register ::
    "'a reflect_libs \<Rightarrow> ('s, 'a) rcvr \<Rightarrow> string \<Rightarrow> bool \<Rightarrow> ('s, 'a, 'g) Server
      \<Rightarrow> go_error option \<times> ('s, 'a, 'g) Server" where
  "register lib r name useName s =
     (let s = s\<lparr>serviceMap := Some (service_map s)\<rparr>;
          sname = (if useName then name
                   else type_Name (if Kind_Ptr (rv_type r) then Elem (rv_type r) else rv_type r))
      in if sname = '''' then
           (Some (NewError (''frpc.Register: no service name for type '' @ rv_text r)), s)
         else if \<not> useName \<and> \<not> isExported lib sname then
           (Some (NewError (''frpc.Register: type '' @ sname @ '' is not exported'')), s)
         else
           let methods = suitableMethods lib (rv_methods r)
           in if length methods = 0 then
                (Some (NewError (''frpc.Register: type '' @ sname @ '' has no exported methods of suitable type'')), s)
              else
                (None, s\<lparr>serviceMap := Some (AList.update sname
                   \<lparr>sv_name = sname, sv_typ = rv_type r, sv_method = methods\<rparr> (service_map s))\<rparr>))"

text \<open>
  \<open>RegisterWithMeta\<close>: the registry and the controllers are told first; their errors are dropped.
  \<open>reg\<close> is the registry's \<open>Register\<close>.  \<open>None\<close> is a panic of a controller.
\<close>

definition RegisterWithMeta ::
    "'a reflect_libs \<Rightarrow> ('g \<Rightarrow> string \<Rightarrow> string \<Rightarrow> 'g) \<Rightarrow> ('s, 'a) rcvr \<Rightarrow> string \<Rightarrow> string \<Rightarrow> ('s, 'a, 'g) Server
      \<Rightarrow> (go_error option \<times> ('s, 'a, 'g) Server) option" where
  "RegisterWithMeta lib reg r name metadata s =
     (let s = s\<lparr>sv_registry := map_option (\<lambda>g. reg g name metadata) (sv_registry s)\<rparr>
      in (case controllerServer_Register name (rv_text r) (sv_controllers s) of
            None \<Rightarrow> None
          | Some (_, cs) \<Rightarrow> Some (register lib r name True (s\<lparr>sv_controllers := cs\<rparr>))))"

definition RegisterWithName ::
    "'a reflect_libs \<Rightarrow> ('g \<Rightarrow> string \<Rightarrow> string \<Rightarrow> 'g) \<Rightarrow> ('s, 'a) rcvr \<Rightarrow> string \<Rightarrow> ('s, 'a, 'g) Server
      \<Rightarrow> (go_error option \<times> ('s, 'a, 'g) Server) option" where
  "RegisterWithName lib reg r name s = RegisterWithMeta lib reg r name '''' s"

definition Register ::
    "'a reflect_libs \<Rightarrow> ('g \<Rightarrow> string \<Rightarrow> string \<Rightarrow> 'g) \<Rightarrow> ('s, 'a) rcvr \<Rightarrow> ('s, 'a, 'g) Server
      \<Rightarrow> (go_error option \<times> ('s, 'a, 'g) Server) option" where
  "Register lib reg r s =
     (let name = type_Name (if Kind_Ptr (rv_type r) then Elem (rv_type r) else rv_type r)
      in RegisterWithMeta lib reg r name '''' s)"

section \<open>What registration offers\<close>

lemma suitableMethods_snoc:
  "suitableMethods lib (ms @ [m]) =
     (if suitable lib m then AList.update (gm_Name m) (method_entry m) (suitableMethods lib ms)
      else suitableMethods lib ms)"
  by (simp add: suitableMethods_def)

lemma suitableMethods_lookup:
  assumes "distinct (map gm_Name ms)"
  shows "map_of (suitableMethods lib ms) n = Some mt \<longleftrightarrow>
    (\<exists>m \<in> set ms. gm_Name m = n \<and> suitable lib m \<and> mt = method_entry m)"
  using assms
proof (induction ms rule: rev_induct)
  case (snoc m ms)
  have fresh: "gm_Name x \<noteq> gm_Name m" if "x \<in> set ms" for x
    using snoc.prems imageI [OF that, of gm_Name] by auto
  show ?case
    using snoc.IH snoc.prems fresh by (auto simp: suitableMethods_snoc)
qed (simp add: suitableMethods_def)

lemma suitableMethods_empty: "suitableMethods lib ms = [] \<longleftrightarrow> \<not> list_ex (suitable lib) ms"
proof (induction ms rule: rev_induct)
  case (snoc m ms)
  have "AList.update k v m \<noteq> []" for k :: string and v :: "('a, 'b) methodType" and m
    by (cases m) auto
  then show ?case using snoc.IH by (simp add: suitableMethods_snoc)
qed (simp add: suitableMethods_def)

text \<open>C14: Registering a receiver under a name offers exactly its suitable methods: when it has one, the
  registration succeeds and every method found later under the service is a suitable method of the
  receiver with that name, and each of them is found; other services stay as they were.  When it has
  none, or the name is empty, the services do not change and an error is returned, but the registry
  was told about the service all the same.\<close>

theorem RegisterWithMeta_offers:
  assumes "list_all controller_ok (sv_controllers s)" and "distinct (map gm_Name (rv_methods r))"
  shows "\<exists>err s'. RegisterWithMeta lib reg r name metadata s = Some (err, s') \<and>
    sv_registry s' = map_option (\<lambda>g. reg g name metadata) (sv_registry s) \<and>
    (err = None \<longleftrightarrow> name \<noteq> '''' \<and> list_ex (suitable lib) (rv_methods r)) \<and>
    (\<forall>other. other \<noteq> name \<longrightarrow> map_of (service_map s') other = map_of (service_map s) other) \<and>
    (if err = None
     then \<exists>sv. map_of (service_map s') name = Some sv \<and>
       (\<forall>n mt. map_of (sv_method sv) n = Some mt \<longleftrightarrow>
         (\<exists>m \<in> set (rv_methods r). gm_Name m = n \<and> suitable lib m \<and> mt = method_entry m))
     else service_map s' = service_map s)"
proof -
  obtain cs' where cs: "controllerServer_Register name (rv_text r) (sv_controllers s) = Some (None, cs')"
    using ctl.chain_register_ok [OF assms(1), of name "rv_text r"] by (auto simp: controllerServer_Register_def)
  note methods = suitableMethods_lookup [OF assms(2)] suitableMethods_empty [of lib "rv_methods r"]
  show ?thesis
  proof (cases "name \<noteq> '''' \<and> list_ex (suitable lib) (rv_methods r)")
    case True
    then show ?thesis
      using methods by (simp add: RegisterWithMeta_def cs register_def Let_def service_map_def)
  next
    case False
    then show ?thesis
      using methods by (auto simp: RegisterWithMeta_def cs register_def Let_def service_map_def split: option.splits)
  qed
qed

text \<open>A receiver with one suitable method, which counts its calls, and one that is not suitable.\<close>

definition echo :: "(nat, string) handler" where
  "echo st reqMeta resMeta argv replyv =
     (if argv = ''boom'' then (Panicked ''boom'', st, resMeta, replyv)
      else if argv = ''bad'' then (Returned (Some (NewError ''bad'')), st, resMeta, replyv)
      else (Returned None, st + 1, AList.update ''server'' ''a'' resMeta, argv))"

definition sample_reflect :: "string reflect_libs" where
  "sample_reflect =
     \<lparr>upper_table = (\<lambda>r. False), Implements_Context = (\<lambda>t. t = Named ''context'' ''Context''),
      zero_value = (\<lambda>t. '''')\<rparr>"

definition sample_rcvr :: "(nat, string) rcvr" where
  "sample_rcvr =
     \<lparr>rv_type = Ptr (Named ''main'' ''Arith''), rv_text = ''*main.Arith'',
      rv_methods =
        [\<lparr>gm_Name = ''Close'', gm_PkgPath = '''', gm_In = [Ptr (Named ''main'' ''Arith'')],
          gm_Out = [typeOfError], gm_Func = echo\<rparr>,
         \<lparr>gm_Name = ''Mul'', gm_PkgPath = '''',
          gm_In = [Ptr (Named ''main'' ''Arith''), Named ''context'' ''Context'', Ptr (Named ''main'' ''Args''),
                   Ptr (Named ''main'' ''Reply'')],
          gm_Out = [typeOfError], gm_Func = echo\<rparr>]\<rparr>"

definition sample_server :: "(nat, string, (string \<times> string) list) Server" where
  "sample_server = (NewServer 0)\<lparr>sv_registry := Some [], sv_controllers := sample_controllers\<rparr>"

lemma sample_rcvr_suitable: "list_ex (suitable sample_reflect) (rv_methods sample_rcvr)"
  by (simp add: sample_rcvr_def suitable_def sample_reflect_def typeOfError_def isExported_def DecodeRune_def
      IsUpper_def)

theorem RegisterWithMeta_offers_witness:
  "\<exists>s'. RegisterWithMeta sample_reflect (\<lambda>g n m. g @ [(n, m)]) sample_rcvr ''Arith'' '''' sample_server = Some (None, s') \<and>
     sv_registry s' = Some [(''Arith'', '''')]"
proof -
  have s: "list_all controller_ok (sv_controllers sample_server)" "sv_registry sample_server = Some []"
    using sample_controllers_ok by (simp_all add: sample_server_def)
  have r: "distinct (map gm_Name (rv_methods sample_rcvr))" by (simp add: sample_rcvr_def)
  obtain err s' where
    res: "RegisterWithMeta sample_reflect (\<lambda>g n m. g @ [(n, m)]) sample_rcvr ''Arith'' '''' sample_server = Some (err, s')"
      "sv_registry s' = Some [(''Arith'', '''')]" and "err = None \<longleftrightarrow> list_ex (suitable sample_reflect) (rv_methods sample_rcvr)"
    using RegisterWithMeta_offers [OF s(1) r, of sample_reflect "\<lambda>g n m. g @ [(n, m)]" "''Arith''" "''''"] s(2)
    by auto
  then show ?thesis using sample_rcvr_suitable by simp
qed

end
