(* ===== verification/Server_Conn.thy ===== *)
theory Server_Conn
  imports Service Message_Decode "HOL-Library.Multiset"
begin

text \<open>
  The server's side of a connection (\<open>src/server/server.go\<close>: \<open>serveConn\<close>, \<open>decodeRequest\<close>,
  \<open>handleRequest\<close>, \<open>handleError\<close>).  Requests are read one after the other; each is handled by a
  goroutine of its own.  The message pool is the package's; \<open>choice\<close> arguments say which pooled
  message \<open>sync.Pool\<close> hands out.
\<close>

section \<open>Handling a request\<close>

fun Itoa :: "nat \<Rightarrow> string" where
  "Itoa n = (if n < 10 then [char_of (48 + n)] else Itoa (n div 10) @ [char_of (48 + n mod 10)])"

declare Itoa.simps [simp del]

definition handleError :: "message \<Rightarrow> go_error \<Rightarrow> message \<times> go_error option" where
  "handleError res err =
     (res\<lparr>Header := SetMessageStatusType Error (Header res),
          Metadata := Some (AList.update ServiceError (error_text err)
            (case Metadata res of None \<Rightarrow> [] | Some m \<Rightarrow> m))\<rparr>,
      Some err)"

text \<open>The entry of a service after one of its methods was called.\<close>

definition store_method ::
    "string \<Rightarrow> ('s, 'a) service \<Rightarrow> string \<Rightarrow> ('s, 'a) methodType \<Rightarrow> ('s, 'a, 'g) Server \<Rightarrow> ('s, 'a, 'g) Server" where
  "store_method sname sv mname mtype s =
     s\<lparr>serviceMap := Some (AList.update sname
       (sv\<lparr>sv_method := AList.update mname mtype (sv_method sv)\<rparr>) (service_map s))\<rparr>"

text \<open>
  \<open>handleRequest\<close> from the decoding of the argument on, for a request whose service, method and codec
  were found.  The second result is the response metadata map of the context, as the method left it.
\<close>

definition call_method ::
    "'a codec_libs \<Rightarrow> 'a reflect_libs \<Rightarrow> Codec \<Rightarrow> ('s, 'a) service \<Rightarrow> ('s, 'a) methodType \<Rightarrow> message \<Rightarrow> message
      \<Rightarrow> ('s, 'a, 'g) Server \<Rightarrow> (message \<times> go_error option) \<times> strmap \<times> ('s, 'a, 'g) Server" where
  "call_method lib rl codec sv mtype req res s =
     (let argv = zero_value rl (if Kind_Ptr (argType mtype) then Elem (argType mtype) else argType mtype)
      in (case codec_Decode lib codec (Payload req) argv of
            (_, Some err) \<Rightarrow> (handleError res err, [], s)
          | (argv, None) \<Rightarrow>
      let replyv = zero_value rl (Elem (replyType mtype));
          (err, mtype, st, resMeta, replyv) = service_call mtype (Metadata req) [] argv replyv (app s);
          s = store_method (ServicePath res) sv (ServiceMethod res) mtype (s\<lparr>app := st\<rparr>)
      in (case err of
            Some err \<Rightarrow> (handleError res err, resMeta, s)
          | None \<Rightarrow>
      (case codec_Encode lib codec replyv of
            Inl err \<Rightarrow> (handleError res err, resMeta, s)
          | Inr data \<Rightarrow> ((res\<lparr>Payload := data\<rparr>, None), resMeta, s)))))"

text \<open>\<open>handleRequest\<close> on the copy \<open>res\<close> of the request.\<close>

definition handle_copy ::
    "'a codec_libs \<Rightarrow> 'a reflect_libs \<Rightarrow> message \<Rightarrow> message \<Rightarrow> ('s, 'a, 'g) Server
      \<Rightarrow> (message \<times> go_error option) \<times> strmap \<times> ('s, 'a, 'g) Server" where
  "handle_copy lib rl req res s =
     (case map_of (service_map s) (ServicePath res) of
        None \<Rightarrow> (handleError res (NewError (''frpc: can't find service '' @ ServicePath res)), [], s)
      | Some sv \<Rightarrow>
     (case map_of (sv_method sv) (ServiceMethod res) of
        None \<Rightarrow> (handleError res (NewError (''frpc: can't find method '' @ ServiceMethod res)), [], s)
      | Some mtype \<Rightarrow>
     (case Codecs (SerializeType (Header req)) of
        None \<Rightarrow>
          (handleError res (NewError (''can not find codec for '' @ Itoa (unat (SerializeType (Header req))))), [], s)
      | Some codec \<Rightarrow> call_method lib rl codec sv mtype req res s)))"

definition handleRequest ::
    "'a codec_libs \<Rightarrow> 'a reflect_libs \<Rightarrow> nat option \<Rightarrow> message \<Rightarrow> message list \<Rightarrow> ('s, 'a, 'g) Server
      \<Rightarrow> (message \<times> go_error option) \<times> strmap \<times> message list \<times> ('s, 'a, 'g) Server" where
  "handleRequest lib rl choice req pool s =
     (let (c, pool) = GetMsgs choice pool;
          res = Copy req c;
          res = res\<lparr>Header := SetMessageType Response (Header res)\<rparr>;
          (r, resMeta, s) = handle_copy lib rl req res s
      in (r, resMeta, pool, s))"

section \<open>One connection\<close>

text \<open>
  The state of \<open>serveConn\<close>: the frames it wrote, what the client still sends, the requests whose
  goroutines have not finished, with the time they were read at, and whether the connection is open.
\<close>

record ('s, 'a, 'g) srv_conn =
  sc_server :: "('s, 'a, 'g) Server"
  sc_pool :: "message list"
  sc_out :: "bytes list"
  sc_in :: reader
  sc_jobs :: "(int \<times> message) list"
  sc_open :: bool

text \<open>
  \<open>conn.Write\<close>, whose error is dropped: after the connection was closed nothing is sent.
\<close>

definition conn_Write :: "bytes \<Rightarrow> ('s, 'a, 'g) srv_conn \<Rightarrow> ('s, 'a, 'g) srv_conn" where
  "conn_Write data c = (if sc_open c then c\<lparr>sc_out := sc_out c @ [data]\<rparr> else c)"

text \<open>
  \<open>decodeRequest\<close>; \<open>None\<close> is a panic in a controller.  An error of a controller is dropped.
\<close>

definition decodeRequest ::
    "int \<Rightarrow> nat option \<Rightarrow> ('s, 'a, 'g) srv_conn \<Rightarrow> (status \<times> message \<times> ('s, 'a, 'g) srv_conn) option" where
  "decodeRequest lim choice c =
     (let (req, pool) = GetMsgs choice (sc_pool c);
          (st, req, r) = Decode lim req (sc_in c);
          c = c\<lparr>sc_pool := pool, sc_in := r\<rparr>
      in if st = Panic then Some (Panic, req, c)
         else
           (case controllerServer_PostRequest req (sv_controllers (sc_server c)) of
              None \<Rightarrow> None
            | Some (_, cs) \<Rightarrow> Some (st, req, c\<lparr>sc_server := (sc_server c)\<lparr>sv_controllers := cs\<rparr>\<rparr>)))"

text \<open>
  One turn of the loop of \<open>serveConn\<close>: every error, and every panic, ends in the deferred function,
  which closes the connection.
\<close>

definition close_serving :: "('s, 'a, 'g) srv_conn \<Rightarrow> ('s, 'a, 'g) srv_conn" where
  "close_serving c = c\<lparr>sc_open := False\<rparr>"

definition serve_read :: "int \<Rightarrow> nat option \<Rightarrow> int \<Rightarrow> ('s, 'a, 'g) srv_conn \<Rightarrow> ('s, 'a, 'g) srv_conn" where
  "serve_read lim choice now c =
     (case decodeRequest lim choice c of
        None \<Rightarrow> close_serving c
      | Some (Done, req, c) \<Rightarrow> c\<lparr>sc_jobs := sc_jobs c @ [(now, req)]\<rparr>
      | Some (_, req, c) \<Rightarrow> close_serving c)"

text \<open>The response metadata of the context joins that of the response.\<close>

definition add_metadata :: "strmap \<Rightarrow> message \<Rightarrow> message" where
  "add_metadata resMeta res =
     (if length resMeta > 0 then
        res\<lparr>Metadata := Some (case Metadata res of
                                None \<Rightarrow> resMeta
                              | Some meta \<Rightarrow> foldl (\<lambda>m (k, v). AList.update k v m) meta resMeta)\<rparr>
      else res)"

text \<open>
  The goroutine of one request, on the connection without its job.  It has no \<open>recover\<close>, so a panic,
  \<open>None\<close>, ends the process.
\<close>

definition serve_request ::
    "'a codec_libs \<Rightarrow> 'a reflect_libs \<Rightarrow> nat option \<Rightarrow> int \<Rightarrow> int \<Rightarrow> message \<Rightarrow> ('s, 'a, 'g) srv_conn
      \<Rightarrow> ('s, 'a, 'g) srv_conn option" where
  "serve_request lib rl choice now start req c =
     (if IsHeartbeat (Header req) then
        map_option (\<lambda>data. conn_Write data c)
          (Encode (req\<lparr>Header := SetMessageType Response (Header req)\<rparr>))
      else
        let ((res, err), resMeta, pool, s) = handleRequest lib rl choice req (sc_pool c) (sc_server c);
            c = c\<lparr>sc_pool := pool, sc_server := s\<rparr>;
            oneway = IsOneway (Header req);
            res = (if oneway then res else add_metadata resMeta res)
        in (case (if oneway then Some c else map_option (\<lambda>data. conn_Write data c) (Encode res)) of
              None \<Rightarrow> None
            | Some c \<Rightarrow>
                (case controllerServer_PostResponse (Some start) now req res err (sv_controllers (sc_server c)) of
                   None \<Rightarrow> None
                 | Some (_, cs) \<Rightarrow>
                     Some (c\<lparr>sc_server := (sc_server c)\<lparr>sv_controllers := cs\<rparr>,
                             sc_pool := FreeMsg res (FreeMsg req (sc_pool c))\<rparr>))))"

text \<open>The steps of a connection: its reader and the goroutines of its requests, in any order.\<close>

inductive server_step ::
    "'a codec_libs \<Rightarrow> 'a reflect_libs \<Rightarrow> int \<Rightarrow> ('s, 'a, 'g) srv_conn \<Rightarrow> ('s, 'a, 'g) srv_conn \<Rightarrow> bool"
  for lib rl lim where
  read: "sc_open c \<Longrightarrow> server_step lib rl lim c (serve_read lim choice now c)"
| answer: "i < length (sc_jobs c) \<Longrightarrow> sc_jobs c ! i = (start, req) \<Longrightarrow>
    serve_request lib rl choice now start req (c\<lparr>sc_jobs := take i (sc_jobs c) @ drop (Suc i) (sc_jobs c)\<rparr>) = Some c' \<Longrightarrow>
    server_step lib rl lim c c'"

inductive_cases server_stepE: "server_step lib rl lim c c'"

section \<open>Responses\<close>

lemma store_method_simps [simp]: "sv_controllers (store_method n sv mn mt s) = sv_controllers s"
  by (simp add: store_method_def)

text \<open>A response is the copy with a payload, or with an error.\<close>

definition answers :: "message \<Rightarrow> ('s, 'a, 'g) Server \<Rightarrow> (message \<times> go_error option) \<times> strmap \<times> ('s, 'a, 'g) Server \<Rightarrow> bool" where
  "answers res s r \<longleftrightarrow>
     ((\<exists>data. fst r = (res\<lparr>Payload := data\<rparr>, None)) \<or> (\<exists>e. fst r = handleError res e)) \<and>
     sv_controllers (snd (snd r)) = sv_controllers s"

lemma answers_error: "sv_controllers s' = sv_controllers s \<Longrightarrow> answers res s (handleError res e, rm, s')"
  by (auto simp: answers_def)

lemma answers_data: "sv_controllers s' = sv_controllers s \<Longrightarrow> answers res s ((res\<lparr>Payload := data\<rparr>, None), rm, s')"
  by (auto simp: answers_def)

lemma call_method_answers: "answers res s (call_method lib rl codec sv mtype req res s)"
  unfolding call_method_def Let_def
  by (simp split: option.split prod.split sum.split add: answers_error answers_data)

lemma handle_copy_answers: "answers res s (handle_copy lib rl req res s)"
  unfolding handle_copy_def by (simp split: option.split add: answers_error call_method_answers)

lemma handle_copy_cases:
  assumes "handle_copy lib rl req res s = ((res', err), resMeta, s')"
  shows "(\<exists>data. res' = res\<lparr>Payload := data\<rparr> \<and> err = None) \<or> (\<exists>e. (res', err) = handleError res e)"
    and "sv_controllers s' = sv_controllers s"
  using handle_copy_answers [where lib = lib and rl = rl and req = req and res = res and s = s]
  by (simp_all add: assms answers_def)

lemma handleError_header:
  assumes "(res', err) = handleError res e" and "wf_header (Header res)"
  shows "wf_header (Header res')" and "Seq (Header res') = Seq (Header res)" and "err = Some e"
    and "MessageType (Header res') = MessageType (Header res)"
    and "MessageStatusType (Header res') = MessageStatusType (Header res) OR Error"
    and "IsHeartbeat (Header res') = IsHeartbeat (Header res)"
    and "Metadata res = None \<Longrightarrow> Metadata res' = Some [(ServiceError, error_text e)]"
  using assms by (simp_all add: handleError_def Error_def)

lemma handleRequest_header:
  assumes "handleRequest lib rl choice req pool s = ((res, err), resMeta, pool', s')"
    and "wf_header (Header req)" and "\<forall>m \<in> set pool. cleared m"
  shows "wf_header (Header res)" and "Seq (Header res) = Seq (Header req)"
    and "MessageType (Header res) = MessageType (Header req) OR Response"
    and "IsHeartbeat (Header res) = IsHeartbeat (Header req)"
    and "err = None \<Longrightarrow> MessageStatusType (Header res) = MessageStatusType (Header req) \<and> Metadata res = None"
    and "err = Some e \<Longrightarrow> MessageStatusType (Header res) = MessageStatusType (Header req) OR Error \<and>
      Metadata res = Some [(ServiceError, error_text e)]"
    and "\<forall>m \<in> set pool'. cleared m" and "sv_controllers s' = sv_controllers s"
proof -
  obtain c p where g: "GetMsgs choice pool = (c, p)" by (cases "GetMsgs choice pool")
  let ?res = "(Copy req c)\<lparr>Header := SetMessageType Response (Header req)\<rparr>"
  obtain r1 e1 where h: "handle_copy lib rl req ?res s = ((r1, e1), resMeta, s')" and r: "r1 = res" "e1 = err" "p = pool'"
    using assms(1) by (auto simp: handleRequest_def g Copy_def split: prod.splits)
  note cl = GetMsgs_cleared [OF assms(3) g]
  have res: "Metadata ?res = None" "Header ?res = SetMessageType Response (Header req)" "wf_header (Header ?res)"
    using cl(1) assms(2) by (simp_all add: Copy_def)
  show "\<forall>m \<in> set pool'. cleared m" using cl(2) r by simp
  show "sv_controllers s' = sv_controllers s" by (rule handle_copy_cases(2) [OF h])
  from handle_copy_cases(1) [OF h] consider
    (ok) data where "r1 = ?res\<lparr>Payload := data\<rparr>" "e1 = None" | (failed) x where "(r1, e1) = handleError ?res x" by blast
  note cs = this
  have resp: "Response AND 1 = (Response :: byte)" "Error AND 3 = (Error :: byte)" by (simp_all add: Response_def Error_def)
  have hdr: "wf_header (Header r1) \<and> Seq (Header r1) = Seq (Header req) \<and>
    MessageType (Header r1) = MessageType (Header req) OR Response \<and> IsHeartbeat (Header r1) = IsHeartbeat (Header req)"
    using cs
  proof cases
    case ok
    then show ?thesis using res assms(2) resp by (simp add: Copy_def)
  next
    case (failed x)
    show ?thesis
      using handleError_header(1,2,4,6) [OF failed res(3)] assms(2) resp unfolding res(2) by simp
  qed
  show "wf_header (Header res)" "Seq (Header res) = Seq (Header req)"
    "MessageType (Header res) = MessageType (Header req) OR Response" "IsHeartbeat (Header res) = IsHeartbeat (Header req)"
    using hdr r by simp_all
  show "MessageStatusType (Header res) = MessageStatusType (Header req) \<and> Metadata res = None" if "err = None"
    using cs
  proof cases
    case (failed x)
    then show ?thesis using handleError_header(3) [OF failed res(3)] that r by simp
  qed (use res assms(2) r in \<open>simp add: Copy_def\<close>)
  show "MessageStatusType (Header res) = MessageStatusType (Header req) OR Error \<and>
      Metadata res = Some [(ServiceError, error_text e)]" if "err = Some e"
    using cs
  proof cases
    case (failed x)
    then show ?thesis
      using handleError_header(3,5) [OF failed res(3)] handleError_header(7) [OF failed res(3,1)] that r assms(2)
      by (simp add: Copy_def)
  qed (use that r in simp)
qed

text \<open>The sequence number in a frame, and the requests that get an answer.\<close>

definition frame_seq :: "bytes \<Rightarrow> u64" where
  "frame_seq f = Seq (take 12 f)"

definition expects :: "message \<Rightarrow> bool" where
  "expects req \<longleftrightarrow> IsHeartbeat (Header req) \<or> \<not> IsOneway (Header req)"

lemma frame_seq_frame: "wf_header (Header m) \<Longrightarrow> frame_seq (frame m) = Seq (Header m)"
  by (simp add: frame_seq_def frame_def wf_header_def)

lemma add_metadata_simps [simp]: "Header (add_metadata rm res) = Header res"
  by (simp add: add_metadata_def)

lemma conn_Write_simps [simp]:
  "sc_jobs (conn_Write d c) = sc_jobs c" "sc_in (conn_Write d c) = sc_in c" "sc_open (conn_Write d c) = sc_open c"
  "sc_pool (conn_Write d c) = sc_pool c" "sc_server (conn_Write d c) = sc_server c"
  "sc_out (conn_Write d c) = sc_out c @ (if sc_open c then [d] else [])"
  by (simp_all add: conn_Write_def)

lemma serve_request_eq:
  assumes "\<not> IsHeartbeat (Header req)"
    and "handleRequest lib rl choice req (sc_pool c) (sc_server c) = ((res, err), rm, p, s)"
    and "res' = (if IsOneway (Header req) then res else add_metadata rm res)"
    and "c1 = c\<lparr>sc_pool := p, sc_server := s\<rparr>" and "Encode res' = Some d"
    and "c2 = (if IsOneway (Header req) then c1 else conn_Write d c1)"
    and "controllerServer_PostResponse (Some start) now req res' err (sv_controllers (sc_server c2)) = Some (e, cs)"
  shows "serve_request lib rl choice now start req c =
    Some (c2\<lparr>sc_server := (sc_server c2)\<lparr>sv_controllers := cs\<rparr>, sc_pool := FreeMsg res' (FreeMsg req (sc_pool c2))\<rparr>)"
proof -
  have "(if IsOneway (Header req) then Some c1 else map_option (\<lambda>data. conn_Write data c1) (Encode res')) = Some c2"
    by (simp add: assms(5,6))
  then show ?thesis
    unfolding serve_request_def assms(2) Let_def prod.case assms(3) [symmetric] assms(4) [symmetric]
    using assms(1,7) by simp
qed

text \<open>The goroutine of a request finishes; it writes one frame with the request's number if an answer is expected.\<close>

lemma serve_request_ok:
  assumes "wf_header (Header req)" and "\<forall>m \<in> set (sc_pool c). cleared m"
    and "list_all controller_ok (sv_controllers (sc_server c))"
  obtains f c' where "serve_request lib rl choice now start req c = Some c'"
    and "sc_out c' = sc_out c @ (if expects req \<and> sc_open c then [f] else [])" and "frame_seq f = Seq (Header req)"
    and "sc_jobs c' = sc_jobs c" and "sc_in c' = sc_in c" and "sc_open c' = sc_open c"
    and "\<forall>m \<in> set (sc_pool c'). cleared m" and "list_all controller_ok (sv_controllers (sc_server c'))"
proof (cases "IsHeartbeat (Header req)")
  case True
  let ?r = "req\<lparr>Header := SetMessageType Response (Header req)\<rparr>"
  have "Encode ?r = Some (frame ?r)" "frame_seq (frame ?r) = Seq (Header req)"
    using assms(1) by (simp_all add: Encode_frame frame_seq_frame)
  then show thesis
    using assms(2,3) True
    by (intro that [of "conn_Write (frame ?r) c" "frame ?r"]) (simp_all add: serve_request_def expects_def)
next
  case False
  obtain res err rm p s where h: "handleRequest lib rl choice req (sc_pool c) (sc_server c) = ((res, err), rm, p, s)"
    by (metis prod.collapse)
  note hd = handleRequest_header [OF h assms(1,2)]
  define res' where "res' = (if IsOneway (Header req) then res else add_metadata rm res)"
  have hdr: "Header res' = Header res" by (simp add: res'_def)
  obtain cs where cs: "controllerServer_PostResponse (Some start) now req res' err (sv_controllers s) = Some (None, cs)"
    "list_all controller_ok cs"
    using ctl.chain_response_ok [OF assms(3), of start now req res' err] hd(8)
    by (auto simp: controllerServer_PostResponse_def)
  have enc: "Encode res' = Some (frame res')" "frame_seq (frame res') = Seq (Header req)"
    using hd(1,2) hdr by (simp_all add: Encode_frame frame_seq_frame)
  define c1 where "c1 = c\<lparr>sc_pool := p, sc_server := s\<rparr>"
  define c2 where "c2 = (if IsOneway (Header req) then c1 else conn_Write (frame res') c1)"
  have run: "serve_request lib rl choice now start req c =
      Some (c2\<lparr>sc_server := (sc_server c2)\<lparr>sv_controllers := cs\<rparr>, sc_pool := FreeMsg res' (FreeMsg req (sc_pool c2))\<rparr>)"
    by (rule serve_request_eq [OF False h res'_def c1_def enc(1) c2_def]) (simp add: c2_def c1_def cs(1))
  have c2: "sc_pool c2 = p" "sc_server c2 = s" "sc_jobs c2 = sc_jobs c" "sc_in c2 = sc_in c" "sc_open c2 = sc_open c"
    "sc_out c2 = sc_out c @ (if expects req \<and> sc_open c then [frame res'] else [])"
    using False by (cases "IsOneway (Header req)"; simp add: c2_def c1_def expects_def)+
  have "\<forall>m \<in> set (FreeMsg res' (FreeMsg req p)). cleared m"
    by (rule FreeMsg_cleared [OF _ FreeMsg_cleared [OF assms(1) hd(7)]]) (simp add: hdr hd(1))
  then show thesis using that [OF run _ enc(2)] c2 cs(2) by simp
qed

section \<open>Every request is answered once\<close>

text \<open>
  The invariant of a connection that receives the frames of the messages \<open>ms\<close>: the first \<open>k\<close> are read,
  and while the connection is open each of these that expects an answer has it, or is still a job.
\<close>

definition srv_inv :: "message list \<Rightarrow> ('s, 'a, 'g) srv_conn \<Rightarrow> bool" where
  "srv_inv ms c \<longleftrightarrow>
     (\<forall>m \<in> set (sc_pool c). cleared m) \<and> list_all controller_ok (sv_controllers (sc_server c)) \<and>
     (\<forall>j \<in> set (sc_jobs c). wf_header (Header (snd j))) \<and>
     (sc_open c \<longrightarrow>
       (\<exists>k \<le> length ms. sc_in c = \<lparr>avail = concat (map frame (drop k ms)), rerr = EOF\<rparr> \<and>
         mset (map frame_seq (sc_out c)) + mset (map (Seq \<circ> Header \<circ> snd) (filter (expects \<circ> snd) (sc_jobs c))) =
         mset (map (Seq \<circ> Header) (filter expects (take k ms)))))"

lemma Decode_no_input:
  "Decode lim m \<lparr>avail = [], rerr = EOF\<rparr> = (Fail EOF, m\<lparr>Header := copy_at (Header m) 0 []\<rparr>, \<lparr>avail = [], rerr = EOF\<rparr>)"
  by (simp add: Decode_def ReadFull_def)

text \<open>Reading on.\<close>

lemma srv_inv_read:
  assumes "srv_inv ms c" and "sc_open c" and "\<forall>m \<in> set ms. wf_message m \<and> within_limit lim (length (body m))"
  shows "srv_inv ms (serve_read lim choice now c)"
proof -
  obtain k where k: "k \<le> length ms" "sc_in c = \<lparr>avail = concat (map frame (drop k ms)), rerr = EOF\<rparr>"
    "mset (map frame_seq (sc_out c)) + mset (map (Seq \<circ> Header \<circ> snd) (filter (expects \<circ> snd) (sc_jobs c))) =
       mset (map (Seq \<circ> Header) (filter expects (take k ms)))"
    using assms(1,2) by (auto simp: srv_inv_def)
  obtain m0 p where g: "GetMsgs choice (sc_pool c) = (m0, p)" by (cases "GetMsgs choice (sc_pool c)")
  have cl: "cleared m0" "\<forall>m \<in> set p. cleared m"
    using GetMsgs_cleared [OF _ g] assms(1) by (simp_all add: srv_inv_def)
  have cs: "\<exists>cs. controllerServer_PostRequest req (sv_controllers (sc_server c)) = Some (None, cs) \<and> list_all controller_ok cs" for req
    using ctl.chain_request_ok [of "sv_controllers (sc_server c)" req] assms(1)
    by (auto simp: controllerServer_PostRequest_def srv_inv_def)
  show ?thesis
  proof (cases "k = length ms")
    case True
    obtain cs' where "controllerServer_PostRequest (m0\<lparr>Header := copy_at (Header m0) 0 []\<rparr>) (sv_controllers (sc_server c)) =
        Some (None, cs')" "list_all controller_ok cs'" using cs by blast
    then show ?thesis
      using assms(1) cl(2) g k(2) True
      by (simp add: serve_read_def decodeRequest_def Decode_no_input close_serving_def srv_inv_def)
  next
    case False
    then have lt: "k < length ms" using k(1) by simp
    let ?m = "ms ! k" and ?rest = "\<lparr>avail = concat (map frame (drop (Suc k) ms)), rerr = EOF\<rparr>"
    let ?req = "received ?m m0"
    have m: "wf_message ?m" "within_limit lim (length (body ?m))" using assms(3) lt by simp_all
    have dec: "Decode lim m0 (sc_in c) = (Done, ?req, ?rest)"
      using Decode_frame [OF m(1) _ m(2), of m0 "concat (map frame (drop (Suc k) ms))" EOF] cl(1) k(2)
      by (simp add: Cons_nth_drop_Suc [OF lt, symmetric])
    obtain cs' where cs': "controllerServer_PostRequest ?req (sv_controllers (sc_server c)) = Some (None, cs')"
      "list_all controller_ok cs'" using cs by blast
    have hdr: "Header ?req = Header ?m" by (simp add: received_def)
    have "wf_header (Header ?req)" "expects ?req = expects ?m" using m(1) hdr by (simp_all add: wf_message_def expects_def)
    moreover have "take (Suc k) ms = take k ms @ [?m]" by (rule take_Suc_conv_app_nth [OF lt])
    ultimately show ?thesis
      using assms(1,2) cl(2) g dec cs' k(3) lt hdr
      by (auto simp: serve_read_def decodeRequest_def srv_inv_def intro!: exI [of _ "Suc k"])
  qed
qed

text \<open>Finishing a request.\<close>

lemma srv_inv_answer:
  assumes "srv_inv ms c" and "i < length (sc_jobs c)" and "sc_jobs c ! i = (start, req)"
    and "serve_request lib rl choice now start req (c\<lparr>sc_jobs := take i (sc_jobs c) @ drop (Suc i) (sc_jobs c)\<rparr>) = Some c'"
  shows "srv_inv ms c'"
proof -
  let ?c = "c\<lparr>sc_jobs := take i (sc_jobs c) @ drop (Suc i) (sc_jobs c)\<rparr>"
  have mem: "(start, req) \<in> set (sc_jobs c)" using assms(2,3) by (metis nth_mem)
  have pre: "wf_header (Header req)" "\<forall>m \<in> set (sc_pool ?c). cleared m"
    "list_all controller_ok (sv_controllers (sc_server ?c))"
    using assms(1) mem by (auto simp: srv_inv_def)
  obtain f where f: "sc_out c' = sc_out ?c @ (if expects req \<and> sc_open ?c then [f] else [])" "frame_seq f = Seq (Header req)"
      "sc_jobs c' = sc_jobs ?c" "sc_in c' = sc_in ?c" "sc_open c' = sc_open ?c"
      "\<forall>m \<in> set (sc_pool c'). cleared m" "list_all controller_ok (sv_controllers (sc_server c'))"
    by (rule serve_request_ok [OF pre, of lib rl choice now start]) (simp add: assms(4))
  have split: "sc_jobs c = take i (sc_jobs c) @ (start, req) # drop (Suc i) (sc_jobs c)"
    using id_take_nth_drop [OF assms(2)] assms(3) by simp
  have jobs: "set (sc_jobs c') \<subseteq> set (sc_jobs c)" unfolding f(3) by (subst (2) split) auto
  have "mset (map (Seq \<circ> Header \<circ> snd) (filter (expects \<circ> snd) (sc_jobs c))) =
      mset (map (Seq \<circ> Header \<circ> snd) (filter (expects \<circ> snd) (sc_jobs c'))) + (if expects req then {#Seq (Header req)#} else {#})"
    unfolding f(3) by (subst split) simp
  then show ?thesis
    using assms(1) f jobs unfolding srv_inv_def by (auto simp: ac_simps split: if_splits)
qed

lemma srv_inv_run:
  assumes "(server_step lib rl lim)\<^sup>*\<^sup>* c0 c" and "srv_inv ms c0"
    and "\<forall>m \<in> set ms. wf_message m \<and> within_limit lim (length (body m))"
  shows "srv_inv ms c"
  using assms(1,2)
proof (induction rule: rtranclp_induct)
  case (step c c')
  from step.hyps(2) step.IH [OF step.prems] show ?case
    by (cases rule: server_stepE) (auto intro: srv_inv_read [OF _ _ assms(3)] srv_inv_answer)
qed

text \<open>A connection on which the client sends the messages \<open>ms\<close> and then nothing more.\<close>

definition new_srv_conn :: "('s, 'a, 'g) Server \<Rightarrow> message list \<Rightarrow> message list \<Rightarrow> ('s, 'a, 'g) srv_conn" where
  "new_srv_conn s pool ms =
     \<lparr>sc_server = s, sc_pool = pool, sc_out = [], sc_in = \<lparr>avail = concat (map frame ms), rerr = EOF\<rparr>,
      sc_jobs = [], sc_open = True\<rparr>"

lemma srv_inv_new:
  assumes "list_all controller_ok (sv_controllers s)" and "\<forall>m \<in> set pool. cleared m"
  shows "srv_inv ms (new_srv_conn s pool ms)"
  using assms by (auto simp: srv_inv_def new_srv_conn_def intro!: exI [of _ 0])


definition sample_conn :: "(nat, string, (string \<times> string) list) srv_conn" where
  "sample_conn = new_srv_conn (NewServer 0) [] [sample_message]"

lemma sample_conn_read:
  "serve_read 100 None 7 sample_conn =
     sample_conn\<lparr>sc_in := \<lparr>avail = [], rerr = EOF\<rparr>, sc_jobs := [(7, received sample_message NewMessage)]\<rparr>"
  using Decode_frame [OF wf_sample(1), of NewMessage 100 "[]" EOF]
  by (simp add: serve_read_def decodeRequest_def sample_conn_def new_srv_conn_def GetMsgs_def NewServer_def
      controllerServer_PostRequest_def within_limit_def wf_sample(2))


text \<open>The jobs of a connection can be finished one by one.\<close>

lemma server_drain:
  assumes "srv_inv ms c"
  shows "\<exists>c'. (server_step lib rl lim)\<^sup>*\<^sup>* c c' \<and> sc_jobs c' = [] \<and> sc_open c' = sc_open c \<and> sc_in c' = sc_in c"
  using assms
proof (induction "length (sc_jobs c)" arbitrary: c)
  case 0
  then show ?case by (intro exI [of _ c]) simp
next
  case (Suc n)
  obtain start req where job: "sc_jobs c ! 0 = (start, req)" by (cases "sc_jobs c ! 0")
  let ?c = "c\<lparr>sc_jobs := take 0 (sc_jobs c) @ drop (Suc 0) (sc_jobs c)\<rparr>"
  have lt: "0 < length (sc_jobs c)" using Suc.hyps(2) by linarith
  have "(start, req) \<in> set (sc_jobs c)" using lt job by (metis nth_mem)
  then have pre: "wf_header (Header req)" "\<forall>m \<in> set (sc_pool ?c). cleared m"
    "list_all controller_ok (sv_controllers (sc_server ?c))"
    using Suc.prems by (auto simp: srv_inv_def)
  obtain c1 where c1: "serve_request lib rl None 0 start req ?c = Some c1" "sc_jobs c1 = sc_jobs ?c"
      "sc_in c1 = sc_in ?c" "sc_open c1 = sc_open ?c"
    by (rule serve_request_ok [OF pre])
  have step: "server_step lib rl lim c c1" by (rule server_step.answer [OF lt job c1(1)])
  have inv1: "srv_inv ms c1" by (rule srv_inv_answer [OF Suc.prems lt job c1(1)])
  have "n = length (sc_jobs c1)" unfolding c1(2) using Suc.hyps(2) by (simp flip: Suc.hyps(2))
  then obtain c' where "(server_step lib rl lim)\<^sup>*\<^sup>* c1 c'" "sc_jobs c' = []" "sc_open c' = sc_open c1" "sc_in c' = sc_in c1"
    using Suc.hyps(1) [OF _ inv1] by blast
  with step c1(3,4) show ?case by (intro exI [of _ c']) (auto intro: converse_rtranclp_into_rtranclp)
qed

text \<open>C7: No request gets lost or stuck.  Whatever happened on an open connection so far, its goroutines
  can run to their ends, none of them panics, and then exactly the requests read that expect an
  answer have been answered.\<close>

theorem server_finishes:
  assumes "list_all controller_ok (sv_controllers s)" and "\<forall>m \<in> set pool. cleared m"
    and "\<forall>m \<in> set ms. wf_message m \<and> within_limit lim (length (body m))"
    and "(server_step lib rl lim)\<^sup>*\<^sup>* (new_srv_conn s pool ms) c" and "sc_open c"
  shows "\<exists>c' k. (server_step lib rl lim)\<^sup>*\<^sup>* c c' \<and> sc_jobs c' = [] \<and> sc_in c' = sc_in c \<and> k \<le> length ms \<and>
    avail (sc_in c) = concat (map frame (drop k ms)) \<and>
    mset (map frame_seq (sc_out c')) = mset (map (Seq \<circ> Header) (filter expects (take k ms)))"
proof -
  have inv: "srv_inv ms c" by (rule srv_inv_run [OF assms(4) srv_inv_new [OF assms(1,2)] assms(3)])
  obtain c' where c': "(server_step lib rl lim)\<^sup>*\<^sup>* c c'" "sc_jobs c' = []" "sc_open c' = sc_open c" "sc_in c' = sc_in c"
    using server_drain [OF inv] by blast
  have "srv_inv ms c'" by (rule srv_inv_run [OF c'(1) inv assms(3)])
  then obtain k where "k \<le> length ms" "sc_in c' = \<lparr>avail = concat (map frame (drop k ms)), rerr = EOF\<rparr>"
    "mset (map frame_seq (sc_out c')) = mset (map (Seq \<circ> Header) (filter expects (take k ms)))"
    using c'(2,3) assms(5) by (auto simp: srv_inv_def)
  then show ?thesis using c' by (intro exI [of _ c'] exI [of _ k]) auto
qed

theorem server_finishes_witness:
  "\<exists>c' k. (server_step store_codec sample_reflect 100)\<^sup>*\<^sup>* sample_conn c' \<and> sc_jobs c' = [] \<and>
     sc_in c' = sc_in sample_conn \<and> k \<le> 1 \<and> avail (sc_in sample_conn) = concat (map frame (drop k [sample_message])) \<and>
     mset (map frame_seq (sc_out c')) = mset (map (Seq \<circ> Header) (filter expects (take k [sample_message])))"
proof -
  have run: "(server_step store_codec sample_reflect 100)\<^sup>*\<^sup>* (new_srv_conn (NewServer 0) [] [sample_message]) sample_conn"
    by (simp add: sample_conn_def)
  have pre: "list_all controller_ok (sv_controllers (NewServer 0))" "\<forall>m \<in> set []. cleared m"
    "\<forall>m \<in> set [sample_message]. wf_message m \<and> within_limit 100 (length (body m))" "sc_open sample_conn"
    using wf_sample by (simp_all add: NewServer_def within_limit_def sample_conn_def new_srv_conn_def)
  show ?thesis using server_finishes [OF pre(1-3) run pre(4)] by simp
qed


definition sample_service_server :: "(nat, string, (string \<times> string) list) Server" where
  "sample_service_server = snd (the (RegisterWithName sample_reflect (\<lambda>g n m. g) sample_rcvr ''Arith'' (NewServer 0)))"

definition panic_request :: message where
  "panic_request = NewMessage\<lparr>Header := SetSeq 7 (SetSerializeType MsgPack (Header NewMessage)),
     ServicePath := ''Arith'', ServiceMethod := ''Mul'', Payload := StringToByte ''boom''\<rparr>"


end
