(* ===== verification/Server_Accept.thy ===== *)
theory Server_Accept
  imports Server_Conn Client_Connect
begin

text \<open>
  The server around its connections: options (\<open>src/server/option.go\<close>, \<open>server_controller.go\<close>), listeners
  (\<open>listener*.go\<close>), and starting, accepting and closing (\<open>server.go\<close>).
\<close>

section \<open>Options\<close>

definition Server_ReadTimeout :: "int \<Rightarrow> ('s, 'a, 'g) Server \<Rightarrow> ('s, 'a, 'g) Server" where
  "Server_ReadTimeout t s = s\<lparr>sv_option := (sv_option s)\<lparr>so_readTimeout := t\<rparr>\<rparr>"

definition Server_WriteTimeout :: "int \<Rightarrow> ('s, 'a, 'g) Server \<Rightarrow> ('s, 'a, 'g) Server" where
  "Server_WriteTimeout t s = s\<lparr>sv_option := (sv_option s)\<lparr>so_writeTimeout := t\<rparr>\<rparr>"

definition Server_TLSConfig :: "nat option \<Rightarrow> ('s, 'a, 'g) Server \<Rightarrow> ('s, 'a, 'g) Server" where
  "Server_TLSConfig cfg s = s\<lparr>sv_option := (sv_option s)\<lparr>so_tlsConfig := cfg\<rparr>\<rparr>"

definition Server_RpcPath :: "string \<Rightarrow> ('s, 'a, 'g) Server \<Rightarrow> ('s, 'a, 'g) Server" where
  "Server_RpcPath path s = s\<lparr>sv_option := (sv_option s)\<lparr>so_rpcPath := path\<rparr>\<rparr>"

definition WithBlockCrypt :: "nat \<Rightarrow> ('s, 'a, 'g) Server \<Rightarrow> ('s, 'a, 'g) Server" where
  "WithBlockCrypt bc s = s\<lparr>sv_option := (sv_option s)\<lparr>so_BlockCrypt := Some bc\<rparr>\<rparr>"

definition WithTlsConfig :: "nat option \<Rightarrow> ('s, 'a, 'g) Server \<Rightarrow> ('s, 'a, 'g) Server" where
  "WithTlsConfig tls s = s\<lparr>sv_option := (sv_option s)\<lparr>so_tlsConfig := tls\<rparr>\<rparr>"

text \<open>\<open>Metric\<close>, \<open>Trace\<close> and \<open>RateLimit\<close> append a controller.\<close>

definition add_controller :: "controller \<Rightarrow> ('s, 'a, 'g) Server \<Rightarrow> ('s, 'a, 'g) Server" where
  "add_controller ct s = s\<lparr>sv_controllers := sv_controllers s @ [ct]\<rparr>"

definition Server_Metric :: "Metric \<Rightarrow> ('s, 'a, 'g) Server \<Rightarrow> ('s, 'a, 'g) Server" where
  "Server_Metric m = add_controller (C_Metric m)"

definition Server_Trace :: "Trace \<Rightarrow> ('s, 'a, 'g) Server \<Rightarrow> ('s, 'a, 'g) Server" where
  "Server_Trace tr = add_controller (C_Trace tr)"

definition Server_RateLimit :: "RateLimit \<Rightarrow> ('s, 'a, 'g) Server \<Rightarrow> ('s, 'a, 'g) Server" where
  "Server_RateLimit r = add_controller (C_RateLimit r)"

text \<open>\<open>Registry\<close>, with the registry that \<open>NewRegistry\<close> and its \<open>Start\<close> give.\<close>

definition Server_Registry :: "'g \<Rightarrow> string \<Rightarrow> ('s, 'a, 'g) Server \<Rightarrow> ('s, 'a, 'g) Server" where
  "Server_Registry innerRegistry addr s = s\<lparr>serviceAddress := addr, sv_registry := Some innerRegistry\<rparr>"

section \<open>Listeners\<close>

text \<open>What opening a listener gives, for the three kinds of network.\<close>

record listen_env =
  le_tcp :: "string \<Rightarrow> go_error + nat"
  le_quic :: "string \<Rightarrow> nat \<Rightarrow> go_error + nat"
  le_kcp :: "string \<Rightarrow> nat \<Rightarrow> go_error + nat"

definition makeTcpListener :: "listen_env \<Rightarrow> server_option \<Rightarrow> string \<Rightarrow> go_error + nat" where
  "makeTcpListener net so address = le_tcp net address"

definition makeQuicListener :: "listen_env \<Rightarrow> server_option \<Rightarrow> string \<Rightarrow> go_error + nat" where
  "makeQuicListener net so address =
     (case so_tlsConfig so of
        None \<Rightarrow> Inl (NewError ''TLSConfig must be configured in server.Options'')
      | Some cfg \<Rightarrow> le_quic net address cfg)"

definition makeKcpListener :: "listen_env \<Rightarrow> server_option \<Rightarrow> string \<Rightarrow> go_error + nat" where
  "makeKcpListener net so address =
     (case so_BlockCrypt so of
        None \<Rightarrow> Inl (NewError ''KCP BlockCrypt must be configured in server.Options'')
      | Some bc \<Rightarrow> le_kcp net address bc)"

text \<open>The table \<open>makeListeners\<close> that \<open>init\<close> fills, and the look-up in it.\<close>

definition makeListeners :: "string \<Rightarrow> (listen_env \<Rightarrow> server_option \<Rightarrow> string \<Rightarrow> go_error + nat) option" where
  "makeListeners n =
     (if n = ''tcp'' then Some makeTcpListener
      else if n = ''http'' then Some makeTcpListener
      else if n = ''quic'' then Some makeQuicListener
      else if n = ''kcp'' then Some makeKcpListener
      else None)"

definition makeListener :: "listen_env \<Rightarrow> server_option \<Rightarrow> string \<Rightarrow> string \<Rightarrow> go_error + nat" where
  "makeListener net so n address =
     (case makeListeners n of
        None \<Rightarrow> Inl (NewError (''can not make listener for '' @ n))
      | Some ml \<Rightarrow> ml net so address)"

section \<open>Accepting connections\<close>

definition ErrServerClosed :: go_error where
  "ErrServerClosed = Sentinel ''http: Server closed''"

definition getDoneChan :: "('s, 'a, 'g) Server \<Rightarrow> bool \<times> ('s, 'a, 'g) Server" where
  "getDoneChan s =
     (let s = (if doneChan s = None then s\<lparr>doneChan := Some False\<rparr> else s) in (the (doneChan s), s))"

definition closeDoneChanLocked :: "('s, 'a, 'g) Server \<Rightarrow> ('s, 'a, 'g) Server" where
  "closeDoneChanLocked s = s\<lparr>doneChan := Some True\<rparr>"

definition active :: "('s, 'a, 'g) Server \<Rightarrow> nat list" where
  "active s = (case activeConn s of None \<Rightarrow> [] | Some cs \<Rightarrow> cs)"

text \<open>
  \<open>Close\<close>: \<open>lerr\<close> is the result of closing the listener.  The second result are the connections closed.
\<close>

definition Server_Close :: "go_error option \<Rightarrow> ('s, 'a, 'g) Server \<Rightarrow> go_error option \<times> nat list \<times> ('s, 'a, 'g) Server" where
  "Server_Close lerr s =
     (let s = closeDoneChanLocked s;
          err = (if sv_ln s \<noteq> None then lerr else None)
      in (err, active s, s\<lparr>activeConn := map_option (\<lambda>cs. []) (activeConn s)\<rparr>))"

text \<open>
  What the accept loop meets: a connection, with the peer's address and the clock readings of the
  controllers, or an error that is temporary or not; and what other goroutines do meanwhile: a served
  connection ends, or the server is closed.
\<close>

datatype accept_event =
    Accepted nat string "nat \<Rightarrow> int"
  | Accept_failed bool go_error
  | Serving_ended nat
  | Closing "go_error option"

text \<open>
  The loop's state: its delay, the delays it slept, the connections being served, the connections
  closed, the result once it has returned, and whether a controller made it panic.
\<close>

record ('s, 'a, 'g) acceptor =
  ac_server :: "('s, 'a, 'g) Server"
  tempDelay :: int
  ac_sleeps :: "int list"
  ac_serving :: "nat list"
  ac_closed :: "nat list"
  ac_result :: "go_error option"
  ac_panic :: bool

definition millisecond :: int where
  "millisecond = 1000000"

definition next_delay :: "int \<Rightarrow> int" where
  "next_delay d =
     (let d = (if d = 0 then 5 * millisecond else d * 2) in if d > second then second else d)"

definition accept_conn :: "nat \<Rightarrow> string \<Rightarrow> (nat \<Rightarrow> int) \<Rightarrow> ('s, 'a, 'g) acceptor \<Rightarrow> ('s, 'a, 'g) acceptor" where
  "accept_conn conn addr clk a =
     (let s = ac_server a;
          s = s\<lparr>activeConn := Some (List.insert conn (active s))\<rparr>;
          a = a\<lparr>tempDelay := 0, ac_server := s\<rparr>
      in (case controllerServer_HandleConn addr clk (sv_controllers s) of
            None \<Rightarrow> a\<lparr>ac_panic := True\<rparr>
          | Some (ok, cs) \<Rightarrow>
              let a = a\<lparr>ac_server := s\<lparr>sv_controllers := cs\<rparr>\<rparr>
              in if \<not> ok then a\<lparr>ac_closed := conn # ac_closed a\<rparr>
                 else a\<lparr>ac_serving := conn # ac_serving a\<rparr>))"

definition accept_error :: "bool \<Rightarrow> go_error \<Rightarrow> ('s, 'a, 'g) acceptor \<Rightarrow> ('s, 'a, 'g) acceptor" where
  "accept_error temporary err a =
     (let (done, s) = getDoneChan (ac_server a); a = a\<lparr>ac_server := s\<rparr>
      in if done then a\<lparr>ac_result := Some ErrServerClosed\<rparr>
         else if temporary then
           let d = next_delay (tempDelay a) in a\<lparr>tempDelay := d, ac_sleeps := ac_sleeps a @ [d]\<rparr>
         else a\<lparr>ac_result := Some err\<rparr>)"

text \<open>The deferred function of \<open>serveConn\<close>.\<close>

definition serving_ended :: "nat \<Rightarrow> ('s, 'a, 'g) acceptor \<Rightarrow> ('s, 'a, 'g) acceptor" where
  "serving_ended conn a =
     (if conn \<in> set (ac_serving a) then
        let s = ac_server a
        in a\<lparr>ac_server := s\<lparr>activeConn := map_option (removeAll conn) (activeConn s)\<rparr>,
             ac_serving := removeAll conn (ac_serving a), ac_closed := conn # ac_closed a\<rparr>
      else a)"

definition accept_event_step :: "accept_event \<Rightarrow> ('s, 'a, 'g) acceptor \<Rightarrow> ('s, 'a, 'g) acceptor" where
  "accept_event_step ev a =
     (case ev of
        Accepted conn addr clk \<Rightarrow> if ac_result a \<noteq> None \<or> ac_panic a then a else accept_conn conn addr clk a
      | Accept_failed temporary err \<Rightarrow> if ac_result a \<noteq> None \<or> ac_panic a then a else accept_error temporary err a
      | Serving_ended conn \<Rightarrow> serving_ended conn a
      | Closing lerr \<Rightarrow>
          (let (_, cs, s) = Server_Close lerr (ac_server a)
           in a\<lparr>ac_server := s, ac_closed := cs @ ac_closed a\<rparr>))"

definition serveListener :: "nat \<Rightarrow> accept_event list \<Rightarrow> ('s, 'a, 'g) Server \<Rightarrow> ('s, 'a, 'g) acceptor" where
  "serveListener listener evs s =
     (let s = s\<lparr>sv_ln := Some listener, activeConn := Some (active s)\<rparr>
      in fold accept_event_step evs
           \<lparr>ac_server = s, tempDelay = 0, ac_sleeps = [], ac_serving = [], ac_closed = [],
            ac_result = None, ac_panic = False\<rparr>)"

section \<open>Serving\<close>

text \<open>
  \<open>serveHTTPListner\<close>: \<open>patterns\<close> are the paths registered with the default mux; registering one twice
  panics.
\<close>

definition serveHTTPListner ::
    "nat \<Rightarrow> string \<Rightarrow> string list \<Rightarrow> ('s, 'a, 'g) Server \<Rightarrow> (string list \<times> ('s, 'a, 'g) Server) option" where
  "serveHTTPListner listener path patterns s =
     (let s = s\<lparr>sv_ln := Some listener\<rparr>;
          path = (if path = '''' then DefaultRPCPath else path)
      in if path \<in> set patterns then None
         else Some (path # patterns, s\<lparr>activeConn := Some (active s)\<rparr>))"

text \<open>
  \<open>ServeHTTP\<close>: what is written to the peer and the connection that \<open>serveConn\<close> takes over; \<open>hijacked\<close> is
  the result of \<open>Hijack\<close>.  \<open>None\<close> is the panic of storing into a nil map.
\<close>

definition ServeHTTP ::
    "string \<Rightarrow> (go_error + nat) \<Rightarrow> ('s, 'a, 'g) Server \<Rightarrow> (string \<times> nat option \<times> ('s, 'a, 'g) Server) option" where
  "ServeHTTP meth hijacked s =
     (if meth \<noteq> ''CONNECT'' then Some (''405 must CONNECT'' @ [CHR 0x0A], None, s)
      else
        (case hijacked of
           Inl err \<Rightarrow> Some ('''', None, s)
         | Inr conn \<Rightarrow>
             (case activeConn s of
                None \<Rightarrow> None
              | Some cs \<Rightarrow>
                  Some (''HTTP/1.0 '' @ connected @ [CHR 0x0A, CHR 0x0A], Some conn,
                        s\<lparr>activeConn := Some (List.insert conn cs)\<rparr>))))"

text \<open>What \<open>Serve\<close> comes to: an error, serving behind the HTTP server, a panic, or the accept loop.\<close>

datatype ('s, 'a, 'g) serving =
    Not_serving go_error
  | Serving_HTTP "string list" "('s, 'a, 'g) Server"
  | Serve_panics
  | Serving_conns "('s, 'a, 'g) acceptor"

definition Serve ::
    "listen_env \<Rightarrow> string list \<Rightarrow> accept_event list \<Rightarrow> string \<Rightarrow> string \<Rightarrow> ('s, 'a, 'g) Server \<Rightarrow> ('s, 'a, 'g) serving" where
  "Serve net patterns evs n address s =
     (case makeListener net (sv_option s) n address of
        Inl err \<Rightarrow> Not_serving err
      | Inr listener \<Rightarrow>
          if n = ''http'' then
            (case serveHTTPListner listener (so_rpcPath (sv_option s)) patterns s of
               None \<Rightarrow> Serve_panics
             | Some (ps, s) \<Rightarrow> Serving_HTTP ps s)
          else Serving_conns (serveListener listener evs s))"

definition ServeProxy ::
    "listen_env \<Rightarrow> string list \<Rightarrow> accept_event list \<Rightarrow> ('s, 'a, 'g) Server \<Rightarrow> ('s, 'a, 'g) serving" where
  "ServeProxy net patterns evs s =
     (if serviceAddress s \<noteq> '''' then
        let ss = SplitN2 (serviceAddress s) (CHR ''@'')
        in if length ss = 1 then Serve net patterns evs ''tcp'' (serviceAddress s) s
           else Serve net patterns evs (ss ! 0) (ss ! 1) s
      else Not_serving (NewError ''server must have serviceAddress first''))"

section \<open>Properties\<close>

text \<open>The delays after temporary errors: 5 ms, doubled each time, at most one second.\<close>

definition backoff :: "nat \<Rightarrow> int" where
  "backoff n = (if n = 0 then 0 else min second (5 * millisecond * 2 ^ (n - 1)))"

lemma next_delay_backoff: "next_delay (backoff n) = backoff (Suc n)"
proof (cases n)
  case (Suc k)
  have "0 < 5 * millisecond * 2 ^ k" by (simp add: millisecond_def)
  then show ?thesis by (simp add: Suc next_delay_def backoff_def min_def second_def millisecond_def)
qed (simp add: next_delay_def backoff_def min_def second_def millisecond_def)

lemma accept_temporary:
  assumes "ac_result a = None" and "\<not> ac_panic a" and "doneChan (ac_server a) \<noteq> Some True" and "tempDelay a = backoff n"
  shows "\<exists>s. accept_event_step (Accept_failed True err) a =
      a\<lparr>ac_server := s, tempDelay := backoff (Suc n), ac_sleeps := ac_sleeps a @ [backoff (Suc n)]\<rparr> \<and>
      doneChan s \<noteq> Some True"
  using assms
  by (intro exI [of _ "snd (getDoneChan (ac_server a))"])
    (auto simp: accept_event_step_def accept_error_def getDoneChan_def Let_def next_delay_backoff)

text \<open>The accept loop backs off and never gives up on temporary errors: the \<open>n\<close>-th in a row makes it
  sleep for 5 milliseconds doubled \<open>n - 1\<close> times, but never longer than a second, and it does not
  return.\<close>

lemma accept_backoff:
  assumes "ac_result a = None" and "\<not> ac_panic a" and "doneChan (ac_server a) \<noteq> Some True" and "tempDelay a = 0"
  shows "let a' = fold accept_event_step (map (Accept_failed True) errs) a in
    ac_result a' = None \<and> ac_sleeps a' = ac_sleeps a @ map (\<lambda>i. min second (5 * millisecond * 2 ^ i)) [0..<length errs]"
proof -
  have "ac_result (fold accept_event_step (map (Accept_failed True) errs) b) = None \<and>
      ac_sleeps (fold accept_event_step (map (Accept_failed True) errs) b) =
        ac_sleeps b @ map (\<lambda>i. backoff (Suc i)) [n..<n + length errs]"
    if "ac_result b = None" "\<not> ac_panic b" "doneChan (ac_server b) \<noteq> Some True" "tempDelay b = backoff n"
    for b :: "('a, 'b, 'c) acceptor" and n
    using that
  proof (induction errs arbitrary: b n)
    case (Cons e errs)
    obtain s where s: "accept_event_step (Accept_failed True e) b =
        b\<lparr>ac_server := s, tempDelay := backoff (Suc n), ac_sleeps := ac_sleeps b @ [backoff (Suc n)]\<rparr>"
      "doneChan s \<noteq> Some True"
      using accept_temporary [OF Cons.prems] by blast
    show ?case
      using Cons.IH [of "accept_event_step (Accept_failed True e) b" "Suc n"] Cons.prems s
      by (simp add: upt_conv_Cons del: upt_Suc)
  qed simp
  from this [of a 0] show ?thesis using assms by (simp add: Let_def backoff_def)
qed

definition sample_acceptor :: "(nat, string, (string \<times> string) list) acceptor" where
  "sample_acceptor = serveListener 1 [] sample_server"

text \<open>C38: Closing the server ends the accept loop.  All connections are closed and forgotten, and at the
  next error of the listener, temporary or not and whatever connections end in between, the loop
  returns \<open>ErrServerClosed\<close>.\<close>

theorem close_ends_accepting:
  assumes "ac_result a = None" and "\<not> ac_panic a"
    and "a1 = accept_event_step (Closing lerr) a"
    and "a2 = accept_event_step (Accept_failed temporary err) (fold accept_event_step (map Serving_ended conns) a1)"
  shows "ac_result a2 = Some ErrServerClosed \<and> active (ac_server a1) = [] \<and>
    set (active (ac_server a)) \<subseteq> set (ac_closed a1)"
proof -
  have a1: "doneChan (ac_server a1) = Some True" "ac_result a1 = None" "\<not> ac_panic a1"
    using assms(1,2,3) by (simp_all add: accept_event_step_def Server_Close_def closeDoneChanLocked_def Let_def)
  have "doneChan (ac_server (fold accept_event_step (map Serving_ended conns) b)) = doneChan (ac_server b) \<and>
      ac_result (fold accept_event_step (map Serving_ended conns) b) = ac_result b \<and>
      ac_panic (fold accept_event_step (map Serving_ended conns) b) = ac_panic b" for b :: "('a, 'b, 'c) acceptor"
    by (induction conns arbitrary: b) (simp_all add: accept_event_step_def serving_ended_def Let_def)
  with a1 have "ac_result a2 = Some ErrServerClosed"
    by (simp add: assms(4) accept_event_step_def [of "Accept_failed temporary err"] accept_error_def getDoneChan_def Let_def)
  moreover have "active (ac_server a1) = []" "set (active (ac_server a)) \<subseteq> set (ac_closed a1)"
    by (auto simp: assms(3) accept_event_step_def Server_Close_def closeDoneChanLocked_def active_def Let_def
        split: option.splits)
  ultimately show ?thesis by simp
qed

theorem close_ends_accepting_witness:
  "ac_result (accept_event_step (Accept_failed True EOF)
     (fold accept_event_step (map Serving_ended [4]) (accept_event_step (Closing None) sample_acceptor))) = Some ErrServerClosed"
  using close_ends_accepting [OF _ _ refl refl, of sample_acceptor True EOF "[4]" None]
  by (simp add: sample_acceptor_def serveListener_def Let_def)

text \<open>Connections that a controller refuses are closed but stay in the table of active connections:
  nothing that happens afterwards short of closing the server removes them, so the table grows with
  every refused connection.\<close>

lemma refused_conn_stays:
  assumes "controllerServer_HandleConn addr clk (sv_controllers (ac_server a)) = Some (False, cs)"
    and "ac_result a = None" and "\<not> ac_panic a" and "conn \<notin> set (ac_serving a)"
    and "\<forall>ev \<in> set evs. case ev of Closing lerr \<Rightarrow> False | Accepted c _ _ \<Rightarrow> c \<noteq> conn | _ \<Rightarrow> True"
  shows "let a' = fold accept_event_step evs (accept_event_step (Accepted conn addr clk) a) in
    conn \<in> set (active (ac_server a')) \<and> conn \<in> set (ac_closed a') \<and> conn \<notin> set (ac_serving a')"
proof -
  have step: "conn \<in> set (active (ac_server (accept_event_step ev b))) \<and>
      conn \<in> set (ac_closed (accept_event_step ev b)) \<and> conn \<notin> set (ac_serving (accept_event_step ev b))"
    if "conn \<in> set (active (ac_server b)) \<and> conn \<in> set (ac_closed b) \<and> conn \<notin> set (ac_serving b)"
      and "case ev of Closing lerr \<Rightarrow> False | Accepted c _ _ \<Rightarrow> c \<noteq> conn | _ \<Rightarrow> True"
    for b :: "('a, 'b, 'c) acceptor" and ev
  proof (cases ev)
    case (Accepted c ad ck)
    then show ?thesis
      using that by (auto simp: accept_event_step_def accept_conn_def active_def Let_def split: option.split)
  next
    case (Accept_failed t e)
    then show ?thesis
      using that(1) by (auto simp: accept_event_step_def accept_error_def getDoneChan_def active_def Let_def)
  next
    case (Serving_ended c)
    then show ?thesis
      using that(1)
      by (cases "activeConn (ac_server b)") (auto simp: accept_event_step_def serving_ended_def active_def Let_def)
  qed (use that(2) in simp)
  have "conn \<in> set (active (ac_server (accept_event_step (Accepted conn addr clk) a))) \<and>
      conn \<in> set (ac_closed (accept_event_step (Accepted conn addr clk) a)) \<and>
      conn \<notin> set (ac_serving (accept_event_step (Accepted conn addr clk) a))"
    using assms(1-4) by (simp add: accept_event_step_def accept_conn_def active_def Let_def)
  then show ?thesis
    unfolding Let_def using assms(5)
  proof (induction evs arbitrary: a rule: rev_induct)
    case (snoc ev evs)
    then show ?case using step [of _ ev] by simp
  qed simp
qed

end
