(* ===== verification/Rpc.thy ===== *)
theory Rpc
  imports Client_Spec Server_Accept
begin

text \<open>
  Client and server together: what a call sent by \<open>src/client/client.go\<close> comes to at
  \<open>src/server/server.go\<close>, and what the client makes of the response.
\<close>

section \<open>The request\<close>

lemma Codecs_small: "Codecs t = Some cd \<Longrightarrow> t AND 15 = t"
  by (auto simp: Codecs_def JSON_def ProtoBuffer_def MsgPack_def split: if_splits)

text \<open>The body of a message has the length of its fields and 16 bytes.\<close>

definition message_size :: "string \<Rightarrow> string \<Rightarrow> strmap option \<Rightarrow> bytes \<Rightarrow> nat" where
  "message_size path meth meta data = 16 + length path + length meth + length (encodeMetadata meta) + length data"

lemma length_body: "length (body m) = message_size (ServicePath m) (ServiceMethod m) (Metadata m) (Payload m)"
  by (simp add: body_def message_size_def)

text \<open>What \<open>send\<close> does for a call whose request could be built.\<close>

lemma send_built:
  assumes "\<not> shutdown w" and "\<not> closing w" and "x = calls w ! c"
    and "Codecs (serializeType (opt w)) = Some cd" and "GetMsgs choice (pool w) = (m, p)"
    and "build_request lib (opt w) x (seq w) m = Inr req" and "wf_header (Header m)"
  obtains w1 where "send lib choice None c w = Some w1" and "written w1 = written w @ [frame req]"
    and "calls w1 = calls w" and "chans w1 = chans w" and "seq w1 = seq w + 1"
    and "pending_map w1 = AList.update (seq w) c (pending_map w)"
proof -
  have wf: "wf_header (Header req)" by (rule build_request_wf [OF assms(7,6)])
  define w1 where "w1 = w\<lparr>seq := seq w + 1, pending := Some (AList.update (seq w) c (pending_map w)),
    pool := FreeMsg req p, written := written w @ [frame req]\<rparr>"
  have "send lib choice None c w = Some w1"
    using assms(1-6) Reset_not_oneway [OF wf] Encode_frame [OF wf]
    by (simp add: send_def send_register_def send_transmit_def w1_def)
  then show thesis by (rule that) (simp_all add: w1_def pending_map_def)
qed

text \<open>The request message of a call, with its payload in the wire form \<open>z\<close>.\<close>

definition wire :: "('a, 'w, 'r) libs \<Rightarrow> client_option \<Rightarrow> bytes \<Rightarrow> bytes \<Rightarrow> bool" where
  "wire lib po data z \<longleftrightarrow>
     (if length data > 1024 \<and> compressType po = Gzip then Zip (zip_lib lib) data = Inr z else z = data)"

lemma send_request:
  assumes "\<not> shutdown w" and "\<not> closing w" and "\<forall>m \<in> set (pool w). cleared m"
    and "x = calls w ! c" and "servicePath x \<noteq> '''' \<or> serviceMethod x \<noteq> ''''"
    and "Codecs (serializeType (opt w)) = Some cd" and "codec_Encode (codec_lib lib) cd (args x) = Inr data"
    and "wire lib (opt w) data z"
  obtains req w1 where "send lib choice None c w = Some w1" and "written w1 = written w @ [frame req]"
    and "calls w1 = calls w" and "chans w1 = chans w" and "seq w1 = seq w + 1"
    and "pending_map w1 = AList.update (seq w) c (pending_map w)"
    and "wf_header (Header req)" and "Seq (Header req) = seq w" and "MessageType (Header req) = Request"
    and "\<not> IsHeartbeat (Header req)" and "\<not> IsOneway (Header req)"
    and "CompressType (Header req) = (if length data > 1024 \<and> compressType (opt w) = Gzip then Gzip else CompressNone)"
    and "MessageStatusType (Header req) = Normal" and "SerializeType (Header req) = serializeType (opt w)"
    and "ServicePath req = servicePath x" and "ServiceMethod req = serviceMethod x"
    and "Metadata req = metadata x" and "Payload req = z"
proof -
  obtain m p where g: "GetMsgs choice (pool w) = (m, p)" by (cases "GetMsgs choice (pool w)")
  have m: "cleared m" by (rule GetMsgs_cleared(1) [OF assms(3) g])
  define h where "h = SetSerializeType (serializeType (opt w)) (SetSeq (seq w) (SetMessageType Request (Header m)))"
  define req where "req = m\<lparr>Header := if length data > 1024 \<and> compressType (opt w) = Gzip then SetCompressType Gzip h else h,
    ServicePath := servicePath x, ServiceMethod := serviceMethod x, Metadata := metadata x, Payload := z\<rparr>"
  have b: "build_request lib (opt w) x (seq w) m = Inr req"
    using assms(5-8) cleared_fields(11) [OF m]
    by (auto simp: build_request_def Let_def req_def h_def wire_def split: if_splits)
  have hdr: "wf_header (Header req)" "Seq (Header req) = seq w" "MessageType (Header req) = Request"
    "\<not> IsHeartbeat (Header req)" "\<not> IsOneway (Header req)"
    "CompressType (Header req) = (if length data > 1024 \<and> compressType (opt w) = Gzip then Gzip else CompressNone)"
    "MessageStatusType (Header req) = Normal" "SerializeType (Header req) = serializeType (opt w)"
    using cleared_fields [OF m] Codecs_small [OF assms(6)]
    by (simp_all add: req_def h_def Request_def CompressNone_def Normal_def Gzip_def)
  show thesis
    by (rule send_built [OF assms(1,2,4,6) g b cleared_fields(1) [OF m]], rule that [OF _ _ _ _ _ _ hdr])
      (simp_all add: req_def)
qed

section \<open>The response\<close>

text \<open>What a method that succeeds gives.\<close>

lemma call_method_ok:
  assumes "codec_Decode lib cd (Payload req)
      (zero_value rl (if Kind_Ptr (argType mt) then Elem (argType mt) else argType mt)) = (a, None)"
    and "mt_func mt (app s) (Metadata req) [] a (zero_value rl (Elem (replyType mt))) = (Returned None, st, rm, r)"
    and "codec_Encode lib cd r = Inr rdata"
  shows "call_method lib rl cd sv mt req res s =
    ((res\<lparr>Payload := rdata\<rparr>, None), rm,
     store_method (ServicePath res) sv (ServiceMethod res) (mt\<lparr>numCalls := numCalls mt + 1\<rparr>) (s\<lparr>app := st\<rparr>))"
  using assms by (simp add: call_method_def service_call_def Let_def)

lemma handleRequest_ok:
  assumes "map_of (service_map s) (ServicePath req) = Some sv" and "map_of (sv_method sv) (ServiceMethod req) = Some mt"
    and "Codecs (SerializeType (Header req)) = Some cd"
    and "codec_Decode lib cd (Payload req)
      (zero_value rl (if Kind_Ptr (argType mt) then Elem (argType mt) else argType mt)) = (a, None)"
    and "mt_func mt (app s) (Metadata req) [] a (zero_value rl (Elem (replyType mt))) = (Returned None, st, rm, r)"
    and "codec_Encode lib cd r = Inr rdata" and "GetMsgs choice pl = (m, pl')"
  shows "handleRequest lib rl choice req pl s =
    (((Copy req m)\<lparr>Header := SetMessageType Response (Header req), Payload := rdata\<rparr>, None), rm, pl',
     store_method (ServicePath req) sv (ServiceMethod req) (mt\<lparr>numCalls := numCalls mt + 1\<rparr>) (s\<lparr>app := st\<rparr>))"
  using assms(1-3,7) call_method_ok [OF assms(4-6)]
  by (simp add: handleRequest_def handle_copy_def Copy_def Let_def)

text \<open>The response metadata of the context, as the client receives it.\<close>

definition response_meta :: "strmap \<Rightarrow> strmap option" where
  "response_meta rm = (if rm = [] then None else Some rm)"

lemma serve_request_success:
  assumes "map_of (service_map (sc_server k)) (ServicePath req) = Some sv"
    and "map_of (sv_method sv) (ServiceMethod req) = Some mt" and "Codecs (SerializeType (Header req)) = Some cd"
    and "codec_Decode lib cd (Payload req)
      (zero_value rl (if Kind_Ptr (argType mt) then Elem (argType mt) else argType mt)) = (a, None)"
    and "mt_func mt (app (sc_server k)) (Metadata req) [] a (zero_value rl (Elem (replyType mt))) = (Returned None, st, rm, r)"
    and "codec_Encode lib cd r = Inr rdata"
    and "wf_header (Header req)" and "\<not> IsHeartbeat (Header req)" and "\<not> IsOneway (Header req)"
    and "\<forall>m \<in> set (sc_pool k). cleared m" and "list_all controller_ok (sv_controllers (sc_server k))" and "sc_open k"
  obtains res k' where "serve_request lib rl choice now start req k = Some k'" and "sc_out k' = sc_out k @ [frame res]"
    and "app (sc_server k') = st" and "Header res = SetMessageType Response (Header req)"
    and "ServicePath res = ServicePath req" and "ServiceMethod res = ServiceMethod req"
    and "Metadata res = response_meta rm" and "Payload res = rdata"
proof -
  obtain m p where g: "GetMsgs choice (sc_pool k) = (m, p)" by (cases "GetMsgs choice (sc_pool k)")
  note h = handleRequest_ok [OF assms(1-6) g]
  have m: "Metadata m = None" using cleared_fields(11) GetMsgs_cleared(1) [OF assms(10) g] by blast
  let ?s = "store_method (ServicePath req) sv (ServiceMethod req) (mt\<lparr>numCalls := numCalls mt + 1\<rparr>) ((sc_server k)\<lparr>app := st\<rparr>)"
  define res where "res = add_metadata rm ((Copy req m)\<lparr>Header := SetMessageType Response (Header req), Payload := rdata\<rparr>)"
  have res: "Header res = SetMessageType Response (Header req)" "ServicePath res = ServicePath req"
    "ServiceMethod res = ServiceMethod req" "Metadata res = response_meta rm" "Payload res = rdata"
    by (simp_all add: res_def add_metadata_def Copy_def m response_meta_def)
  have enc: "Encode res = Some (frame res)" by (rule Encode_frame) (simp add: res assms(7))
  define k1 where "k1 = k\<lparr>sc_pool := p, sc_server := ?s\<rparr>"
  define k2 where "k2 = conn_Write (frame res) k1"
  have "list_all controller_ok (sv_controllers (sc_server k2))" using assms(11) by (simp add: k2_def k1_def)
  then obtain cs where cs: "controllerServer_PostResponse (Some start) now req res None (sv_controllers (sc_server k2)) = Some (None, cs)"
    using ctl.chain_response_ok [of "sv_controllers (sc_server k2)" start now req res None]
    by (auto simp: controllerServer_PostResponse_def)
  have run: "serve_request lib rl choice now start req k =
      Some (k2\<lparr>sc_server := (sc_server k2)\<lparr>sv_controllers := cs\<rparr>, sc_pool := FreeMsg res (FreeMsg req (sc_pool k2))\<rparr>)"
    by (rule serve_request_eq [OF assms(8) h _ k1_def enc _ cs]) (simp_all add: assms(9) res_def k2_def)
  show thesis
    by (rule that [OF run _ _ res]) (simp_all add: k2_def k1_def assms(12) store_method_def)
qed

section \<open>The whole exchange\<close>

text \<open>
  One call from start to end over a connection of its own: the client sends call \<open>c\<close>; the server reads
  the frame and runs the goroutine of the request; the client decodes what the server wrote into the
  cleared buffer \<open>buf\<close> and handles it.  The result is the error of the receive loop and the two ends'
  states; \<open>None\<close> when any part fails.
\<close>

record choices =
  ch_send :: "nat option"
  ch_read :: "nat option"
  ch_copy :: "nat option"
  ch_times :: "int \<times> int"

definition exchange ::
    "('a, 'w, 'r) libs \<Rightarrow> 'b codec_libs \<Rightarrow> 'b reflect_libs \<Rightarrow> int \<Rightarrow> choices \<Rightarrow> message \<Rightarrow> nat \<Rightarrow> 'a conn
      \<Rightarrow> message list \<Rightarrow> ('s, 'b, 'g) Server \<Rightarrow> (go_error option \<times> 'a conn \<times> ('s, 'b, 'g) Server) option" where
  "exchange lib slib rl lim ch buf c w pl s =
     (case send lib (ch_send ch) None c w of
        None \<Rightarrow> None
      | Some w \<Rightarrow>
          let k = serve_read lim (ch_read ch) (fst (ch_times ch))
                    \<lparr>sc_server = s, sc_pool = pl, sc_out = [], sc_in = \<lparr>avail = last (written w), rerr = EOF\<rparr>,
                     sc_jobs = [], sc_open = True\<rparr>
          in (case sc_jobs k of
                [(start, req)] \<Rightarrow>
                  (case serve_request slib rl (ch_copy ch) (snd (ch_times ch)) start req (k\<lparr>sc_jobs := []\<rparr>) of
                     None \<Rightarrow> None
                   | Some k \<Rightarrow>
                       (case Decode lim buf \<lparr>avail = concat (sc_out k), rerr = EOF\<rparr> of
                          (Done, res, _) \<Rightarrow>
                            (case handle_message lib res w of (err, _, w) \<Rightarrow> Some (err, w, sc_server k))
                        | _ \<Rightarrow> None))
              | _ \<Rightarrow> None))"

text \<open>Reading one frame from an otherwise idle connection.\<close>

lemma serve_read_frame:
  assumes "wf_message m" and "within_limit lim (length (body m))" and "\<forall>m \<in> set pl. cleared m"
    and "list_all controller_ok (sv_controllers s)"
    and "k = \<lparr>sc_server = s, sc_pool = pl, sc_out = [], sc_in = \<lparr>avail = frame m, rerr = EOF\<rparr>, sc_jobs = [], sc_open = True\<rparr>"
  obtains m0 cs pl' where "serve_read lim choice now k =
      k\<lparr>sc_server := s\<lparr>sv_controllers := cs\<rparr>, sc_pool := pl', sc_in := \<lparr>avail = [], rerr = EOF\<rparr>, sc_jobs := [(now, received m m0)]\<rparr>"
    and "cleared m0" and "\<forall>m \<in> set pl'. cleared m" and "list_all controller_ok cs"
proof -
  obtain m0 p where g: "GetMsgs choice pl = (m0, p)" by (cases "GetMsgs choice pl")
  note cl = GetMsgs_cleared [OF assms(3) g]
  have dec: "Decode lim m0 \<lparr>avail = frame m, rerr = EOF\<rparr> = (Done, received m m0, \<lparr>avail = [], rerr = EOF\<rparr>)"
    using Decode_frame [OF assms(1) _ assms(2), of m0 "[]" EOF] cl(1) by simp
  obtain cs where cs: "controllerServer_PostRequest (received m m0) (sv_controllers s) = Some (None, cs)" "list_all controller_ok cs"
    using ctl.chain_request_ok [OF assms(4), of "received m m0"] by (auto simp: controllerServer_PostRequest_def)
  have "serve_read lim choice now k =
      k\<lparr>sc_server := s\<lparr>sv_controllers := cs\<rparr>, sc_pool := p, sc_in := \<lparr>avail = [], rerr = EOF\<rparr>, sc_jobs := [(now, received m m0)]\<rparr>"
    using g dec cs(1) by (simp add: serve_read_def decodeRequest_def assms(5))
  then show thesis by (rule that [OF _ cl cs(2)])
qed

text \<open>The table after a call was registered.\<close>

lemma wf_store_registered:
  assumes "wf_store w" and "c < length (calls w)" and "unat (seq w) + 1 < 2 ^ 64"
    and "calls w1 = calls w" and "chans w1 = chans w" and "seq w1 = seq w + 1"
    and "pending_map w1 = AList.update (seq w) c (pending_map w)"
  shows "wf_store w1" and "map_of (pending_map w1) (seq w) = Some c"
proof -
  have suc: "unat (seq w + 1) = Suc (unat (seq w))" by (rule unat_Suc64) (use assms(3) in simp)
  have "fst kc \<noteq> seq w" if "kc \<in> set (pending_map w)" for kc
    using that assms(1) by (auto simp: wf_store_def)
  then have "AList.update (seq w) c (pending_map w) = pending_map w @ [(seq w, c)]"
    by (intro AList_update_fresh) force
  then show "wf_store w1"
    using assms(1,2) suc unfolding wf_store_def assms(4-7) by (auto simp: less_Suc_eq)
  show "map_of (pending_map w1) (seq w) = Some c" by (simp add: assms(7))
qed

text \<open>
  An exchange whose request was sent: the request as the server's goroutine sees it, and what its
  response comes to at the client.
\<close>

lemma exchange_sent:
  assumes "send lib (ch_send ch) None c w = Some w1" and "written w1 = ws @ [frame req]" and "wf_message req"
    and "within_limit lim (length (body req))" and "\<forall>m \<in> set pl. cleared m" and "list_all controller_ok (sv_controllers s)"
  obtains q k where "Header q = Header req" and "ServicePath q = ServicePath req" and "ServiceMethod q = ServiceMethod req"
    and "Metadata q = received_meta (Metadata req) None" and "Payload q = Payload req"
    and "service_map (sc_server k) = service_map s" and "app (sc_server k) = app s"
    and "list_all controller_ok (sv_controllers (sc_server k))" and "\<forall>m \<in> set (sc_pool k). cleared m"
    and "sc_open k" and "sc_out k = []"
    and "\<forall>res k' err b w'.
      serve_request slib rl (ch_copy ch) (snd (ch_times ch)) (fst (ch_times ch)) q k = Some k' \<and> sc_out k' = [frame res] \<and>
      wf_message res \<and> within_limit lim (length (body res)) \<and> cleared buf \<and>
      handle_message lib (received res buf) w1 = (err, b, w') \<longrightarrow>
      exchange lib slib rl lim ch buf c w pl s = Some (err, w', sc_server k')"
proof -
  define k where "k = \<lparr>sc_server = s, sc_pool = pl, sc_out = [], sc_in = \<lparr>avail = frame req, rerr = EOF\<rparr>,
    sc_jobs = [], sc_open = True\<rparr>"
  obtain m0 cs pl' where rd: "serve_read lim (ch_read ch) (fst (ch_times ch)) k =
      k\<lparr>sc_server := s\<lparr>sv_controllers := cs\<rparr>, sc_pool := pl', sc_in := \<lparr>avail = [], rerr = EOF\<rparr>,
        sc_jobs := [(fst (ch_times ch), received req m0)]\<rparr>"
    and m0: "cleared m0" "\<forall>m \<in> set pl'. cleared m" "list_all controller_ok cs"
    by (rule serve_read_frame [OF assms(3-6) k_def])
  define k1 where "k1 = k\<lparr>sc_server := s\<lparr>sv_controllers := cs\<rparr>, sc_pool := pl', sc_in := \<lparr>avail = [], rerr = EOF\<rparr>, sc_jobs := []\<rparr>"
  have ex: "exchange lib slib rl lim ch buf c w pl s = Some (err, w', sc_server k')"
    if "serve_request slib rl (ch_copy ch) (snd (ch_times ch)) (fst (ch_times ch)) (received req m0) k1 = Some k'"
      "sc_out k' = [frame res]" "wf_message res" "within_limit lim (length (body res))" "cleared buf"
      "handle_message lib (received res buf) w1 = (err, b, w')" for res k' err b w'
  proof -
    have "Decode lim buf \<lparr>avail = frame res, rerr = EOF\<rparr> = (Done, received res buf, \<lparr>avail = [], rerr = EOF\<rparr>)"
      using Decode_frame [OF that(3) _ that(4), of buf "[]" EOF] that(5) by simp
    then show ?thesis
      using assms(1,2) rd that(1,2,6) by (simp add: exchange_def k_def k1_def)
  qed
  show thesis
  proof (rule that)
    show "\<forall>res k' err b w'.
      serve_request slib rl (ch_copy ch) (snd (ch_times ch)) (fst (ch_times ch)) (received req m0) k1 = Some k' \<and>
      sc_out k' = [frame res] \<and> wf_message res \<and> within_limit lim (length (body res)) \<and> cleared buf \<and>
      handle_message lib (received res buf) w1 = (err, b, w') \<longrightarrow>
      exchange lib slib rl lim ch buf c w pl s = Some (err, w', sc_server k')"
      using ex by blast
  qed (use m0 cleared_fields(11) [OF m0(1)] in \<open>simp_all add: received_def k1_def k_def service_map_def\<close>)
qed

text \<open>
  The first half of an exchange: the call is registered at the client, and the request reaches a
  goroutine of the server with the call's names, metadata and payload.
\<close>

lemma exchange_begins:
  assumes "wf_store w" and "\<not> shutdown w" and "\<not> closing w" and "\<forall>m \<in> set (pool w). cleared m"
    and "unat (seq w) + 1 < 2 ^ 64" and "c < length (calls w)" and "x = calls w ! c"
    and "servicePath x \<noteq> '''' \<or> serviceMethod x \<noteq> ''''" and "\<forall>kvs. metadata x = Some kvs \<longrightarrow> distinct (map fst kvs)"
    and "Codecs (serializeType (opt w)) = Some cd" and "codec_Encode (codec_lib lib) cd (args x) = Inr data"
    and "wire lib (opt w) data z" and "message_size (servicePath x) (serviceMethod x) (metadata x) z < 2 ^ 32"
    and "within_limit lim (message_size (servicePath x) (serviceMethod x) (metadata x) z)"
    and "\<forall>m \<in> set pl. cleared m" and "list_all controller_ok (sv_controllers s)"
  obtains w1 q k where "wf_store w1" and "calls w1 = calls w" and "map_of (pending_map w1) (seq w) = Some c"
    and "wf_header (Header q)" and "Seq (Header q) = seq w" and "MessageType (Header q) = Request"
    and "\<not> IsHeartbeat (Header q)" and "\<not> IsOneway (Header q)"
    and "CompressType (Header q) = (if length data > 1024 \<and> compressType (opt w) = Gzip then Gzip else CompressNone)"
    and "MessageStatusType (Header q) = Normal" and "SerializeType (Header q) = serializeType (opt w)"
    and "ServicePath q = servicePath x" and "ServiceMethod q = serviceMethod x"
    and "Metadata q = received_meta (metadata x) None" and "Payload q = z"
    and "service_map (sc_server k) = service_map s" and "app (sc_server k) = app s"
    and "list_all controller_ok (sv_controllers (sc_server k))" and "\<forall>m \<in> set (sc_pool k). cleared m"
    and "sc_open k" and "sc_out k = []"
    and "\<forall>res k' err b w'.
      serve_request slib rl (ch_copy ch) (snd (ch_times ch)) (fst (ch_times ch)) q k = Some k' \<and> sc_out k' = [frame res] \<and>
      wf_message res \<and> within_limit lim (length (body res)) \<and> cleared buf \<and>
      handle_message lib (received res buf) w1 = (err, b, w') \<longrightarrow>
      exchange lib slib rl lim ch buf c w pl s = Some (err, w', sc_server k')"
proof -
  obtain req w1 where snd: "send lib (ch_send ch) None c w = Some w1" "written w1 = written w @ [frame req]"
    and store: "calls w1 = calls w" "chans w1 = chans w" "seq w1 = seq w + 1"
      "pending_map w1 = AList.update (seq w) c (pending_map w)"
    and hdr: "wf_header (Header req)" "Seq (Header req) = seq w" "MessageType (Header req) = Request"
      "\<not> IsHeartbeat (Header req)" "\<not> IsOneway (Header req)"
      "CompressType (Header req) = (if length data > 1024 \<and> compressType (opt w) = Gzip then Gzip else CompressNone)"
      "MessageStatusType (Header req) = Normal" "SerializeType (Header req) = serializeType (opt w)"
    and req: "ServicePath req = servicePath x" "ServiceMethod req = serviceMethod x" "Metadata req = metadata x"
      "Payload req = z"
    by (rule send_request [OF assms(2-4,7,8,10-12)])
  have wfq: "wf_message req" "within_limit lim (length (body req))"
    using hdr(1) assms(9,13,14) by (simp_all add: wf_message_def length_body req)
  note tab = wf_store_registered [OF assms(1,6,5) store]
  show thesis
    by (rule exchange_sent [OF snd wfq assms(15,16), where slib = slib and rl = rl and buf = buf, unfolded req],
        rule that [OF tab(1) store(1) tab(2)])
      (simp_all add: hdr)
qed

section \<open>Failures on the way\<close>

text \<open>A request whose argument the codec rejects.\<close>

lemma serve_request_rejected:
  assumes "map_of (service_map (sc_server k)) (ServicePath req) = Some sv"
    and "map_of (sv_method sv) (ServiceMethod req) = Some mt" and "Codecs (SerializeType (Header req)) = Some cd"
    and "codec_Decode lib cd (Payload req)
      (zero_value rl (if Kind_Ptr (argType mt) then Elem (argType mt) else argType mt)) = (a, Some e)"
    and "wf_header (Header req)" and "\<not> IsHeartbeat (Header req)" and "\<not> IsOneway (Header req)"
    and "\<forall>m \<in> set (sc_pool k). cleared m" and "list_all controller_ok (sv_controllers (sc_server k))" and "sc_open k"
  obtains res k' where "serve_request lib rl choice now start req k = Some k'" and "sc_out k' = sc_out k @ [frame res]"
    and "app (sc_server k') = app (sc_server k)" and "service_map (sc_server k') = service_map (sc_server k)"
    and "Header res = SetMessageStatusType Error (SetMessageType Response (Header req))"
    and "ServicePath res = ServicePath req" and "ServiceMethod res = ServiceMethod req"
    and "Metadata res = Some [(ServiceError, error_text e)]" and "Payload res = []"
proof -
  obtain m p where g: "GetMsgs choice (sc_pool k) = (m, p)" by (cases "GetMsgs choice (sc_pool k)")
  have m: "cleared m" using GetMsgs_cleared(1) [OF assms(8) g] .
  define res where "res = fst (handleError ((Copy req m)\<lparr>Header := SetMessageType Response (Header req)\<rparr>) e)"
  have h: "handleRequest lib rl choice req (sc_pool k) (sc_server k) = ((res, Some e), [], p, sc_server k)"
    using assms(1-4) g by (simp add: handleRequest_def handle_copy_def call_method_def handleError_def Copy_def res_def Let_def)
  have res: "Header res = SetMessageStatusType Error (SetMessageType Response (Header req))" "ServicePath res = ServicePath req"
    "ServiceMethod res = ServiceMethod req" "Metadata res = Some [(ServiceError, error_text e)]" "Payload res = []"
    using cleared_fields(11,12) [OF m] by (simp_all add: res_def handleError_def Copy_def)
  have enc: "Encode res = Some (frame res)" by (rule Encode_frame) (simp add: res assms(5))
  define k1 where "k1 = k\<lparr>sc_pool := p, sc_server := sc_server k\<rparr>"
  define k2 where "k2 = conn_Write (frame res) k1"
  have "list_all controller_ok (sv_controllers (sc_server k2))" using assms(9) by (simp add: k2_def k1_def)
  then obtain cs where cs: "controllerServer_PostResponse (Some start) now req res (Some e) (sv_controllers (sc_server k2)) = Some (None, cs)"
    using ctl.chain_response_ok [of "sv_controllers (sc_server k2)" start now req res "Some e"]
    by (auto simp: controllerServer_PostResponse_def)
  have run: "serve_request lib rl choice now start req k =
      Some (k2\<lparr>sc_server := (sc_server k2)\<lparr>sv_controllers := cs\<rparr>, sc_pool := FreeMsg res (FreeMsg req (sc_pool k2))\<rparr>)"
    by (rule serve_request_eq [OF assms(6) h _ k1_def enc _ cs]) (simp_all add: assms(7) k2_def add_metadata_def)
  show thesis
    by (rule that [OF run _ _ _ res]) (simp_all add: k2_def k1_def assms(10) service_map_def)
qed

text \<open>An error response at the client.\<close>

lemma handle_message_error:
  assumes "wf_store w" and "map_of (pending_map w) (Seq (Header res)) = Some c"
    and "MessageType (Header res) = Response" and "MessageStatusType (Header res) = Error"
    and "Metadata res = Some [(ServiceError, t)]"
  obtains w' where "handle_message lib res w = (None, Reset res, w')" and "delivered w' c"
    and "calls w' = (calls w)[c := (calls w ! c)\<lparr>call_Error := Some (ServiceErr t), resMetadata := Metadata res\<rparr>]"
proof -
  obtain w1 where take: "take_pending (Seq (Header res)) w = (Some c, w1)"
    using assms(2) by (simp add: take_pending_def)
  note tp = take_pending_wf [OF take assms(1)]
  have w1: "calls w1 = calls w" using take by (auto simp: take_pending_def)
  let ?f = "\<lambda>x. x\<lparr>call_Error := Some (ServiceErr t), resMetadata := Metadata res\<rparr>"
  have h: "handle_message lib res w = (None, Reset res, call_done c (update_call c ?f w1))"
    using assms(3-5) take by (simp add: handle_message_def Let_def Request_def Response_def)
  have "delivered (call_done c (update_call c ?f w1)) c"
    using tp(1) tp(3) [of c] by (intro complete_delivered tp(2)) (simp_all add: evolves_def)
  then show thesis by (rule that [OF h]) (simp add: update_call_def w1)
qed

end
