(* ===== verification/Url.thy ===== *)
theory Url
  imports Go_Strings "HOL-Library.Char_ord" "HOL-Library.List_Lexorder"
begin

text \<open>
  The part of \<open>net/url\<close> that writes queries: \<open>QueryEscape\<close>, \<open>Values.Set\<close> and \<open>Values.Encode\<close>, which the
  registries use to refresh the metadata of a server (\<open>src/registry/registry_etcd.go\<close>), with the round
  trip through \<open>ParseQuery\<close>.
\<close>

section \<open>Escaping\<close>

definition unreserved :: "char \<Rightarrow> bool" where
  "unreserved c \<longleftrightarrow> of_char c \<in> {48 .. 57 :: nat} \<union> {65 .. 90} \<union> {97 .. 122} \<or>
     c \<in> {CHR ''-'', CHR ''_'', CHR ''.'', CHR ''~''}"

definition upperhex :: "nat \<Rightarrow> char" where
  "upperhex n = (if n < 10 then char_of (48 + n) else char_of (55 + n))"

fun QueryEscape :: "string \<Rightarrow> string" where
  "QueryEscape [] = []"
| "QueryEscape (c # s) =
     (if c = CHR '' '' then CHR ''+'' # QueryEscape s
      else if unreserved c then c # QueryEscape s
      else CHR ''%'' # upperhex (of_char c div 16) # upperhex (of_char c mod 16) # QueryEscape s)"

lemma upperhex_char:
  assumes "n < 16"
  shows "is_hex (upperhex n)" and "unhex (upperhex n) = n" and "unreserved (upperhex n)"
  using assms by (auto simp: upperhex_def is_hex_def unhex_def unreserved_def of_char_of)

lemma of_char_byte: "(of_char (c :: char) :: nat) < 256"
  by (metis of_char_mod_256 mod_less_divisor zero_less_numeral)

lemma nibbles: "of_char (c :: char) div 16 < (16 :: nat)" "of_char (c :: char) mod 16 < (16 :: nat)"
  using of_char_byte [of c] by (simp_all add: less_mult_imp_div_less)

lemma QueryUnescape_QueryEscape [simp]: "QueryUnescape (QueryEscape s) = Inr s"
proof (induction s)
  case (Cons c s)
  note c = nibbles [of c]
  have "16 * (of_char c div 16) + of_char c mod 16 = (of_char c :: nat)" by simp
  moreover have "c \<noteq> CHR ''%'' \<and> c \<noteq> CHR ''+''" if "unreserved c"
    using that by (auto simp: unreserved_def)
  ultimately show ?case
    using Cons.IH upperhex_char [OF c(1)] upperhex_char [OF c(2)] by (simp del: of_char_mod_256)
qed simp

lemma QueryEscape_chars: "c \<in> set (QueryEscape s) \<Longrightarrow> unreserved c \<or> c = CHR ''+'' \<or> c = CHR ''%''"
proof (induction s)
  case (Cons d s)
  note d = nibbles [of d]
  show ?case
    using Cons upperhex_char(3) [OF d(1)] upperhex_char(3) [OF d(2)] by (auto split: if_splits)
qed simp

lemma QueryEscape_plain:
  "CHR ''&'' \<notin> set (QueryEscape s)" "CHR '';'' \<notin> set (QueryEscape s)" "CHR ''='' \<notin> set (QueryEscape s)"
  using QueryEscape_chars [of _ s] by (force simp: unreserved_def)+

section \<open>Writing and reading back\<close>

definition Values_Set :: "url_values \<Rightarrow> string \<Rightarrow> string \<Rightarrow> url_values" where
  "Values_Set v k x = AList.update k [x] v"

definition query_pair :: "string \<times> string \<Rightarrow> string" where
  "query_pair p = QueryEscape (fst p) @ CHR ''='' # QueryEscape (snd p)"

fun join_pairs :: "(string \<times> string) list \<Rightarrow> string" where
  "join_pairs [] = []"
| "join_pairs [p] = query_pair p"
| "join_pairs (p # q # ps) = query_pair p @ CHR ''&'' # join_pairs (q # ps)"

definition key_values :: "url_values \<Rightarrow> string \<Rightarrow> string list" where
  "key_values v k = (case map_of v k of None \<Rightarrow> [] | Some xs \<Rightarrow> xs)"

text \<open>\<open>Values.Encode\<close> writes the keys in sorted order, each with all its values.\<close>

definition Values_Encode :: "url_values \<Rightarrow> string" where
  "Values_Encode v = join_pairs (concat (map (\<lambda>k. map (Pair k) (key_values v k)) (sort (map fst v))))"

lemma query_pair_parts:
  "takeWhile (\<lambda>c. c \<noteq> CHR ''&'' \<and> c \<noteq> CHR '';'') (query_pair p) = query_pair p"
  "takeWhile (\<lambda>c. c \<noteq> CHR ''&'' \<and> c \<noteq> CHR '';'') (query_pair p @ CHR ''&'' # rest) = query_pair p"
  "query_pair p \<noteq> []" "SplitN2 (query_pair p) (CHR ''='') = [QueryEscape (fst p), QueryEscape (snd p)]"
proof -
  have plain: "c \<noteq> CHR ''&'' \<and> c \<noteq> CHR '';''" if "c \<in> set (query_pair p)" for c
    using that QueryEscape_plain [of "fst p"] QueryEscape_plain [of "snd p"] by (auto simp: query_pair_def)
  then show "takeWhile (\<lambda>c. c \<noteq> CHR ''&'' \<and> c \<noteq> CHR '';'') (query_pair p) = query_pair p"
    by (simp add: takeWhile_eq_all_conv)
  show "takeWhile (\<lambda>c. c \<noteq> CHR ''&'' \<and> c \<noteq> CHR '';'') (query_pair p @ CHR ''&'' # rest) = query_pair p"
    using plain by (subst takeWhile_append2) auto
  show "query_pair p \<noteq> []" by (simp add: query_pair_def)
  show "SplitN2 (query_pair p) (CHR ''='') = [QueryEscape (fst p), QueryEscape (snd p)]"
    using SplitN2_join [OF QueryEscape_plain(3) [of "fst p"], of "QueryEscape (snd p)"] by (simp add: query_pair_def)
qed

lemma ParseQuery_loop_pair:
  "ParseQuery_loop (query_pair p) m err = (values_add m (fst p) (snd p), err)"
  "ParseQuery_loop (query_pair p @ CHR ''&'' # rest) m err = ParseQuery_loop rest (values_add m (fst p) (snd p)) err"
  by (subst ParseQuery_loop.simps,
      simp add: query_pair_parts Let_def ParseQuery_loop.simps [of "[]"])+

definition add_pairs :: "(string \<times> string) list \<Rightarrow> url_values \<Rightarrow> url_values" where
  "add_pairs ps m = foldl (\<lambda>m p. values_add m (fst p) (snd p)) m ps"

lemma ParseQuery_join: "ParseQuery_loop (join_pairs ps) m err = (add_pairs ps m, err)"
proof (induction ps arbitrary: m rule: join_pairs.induct)
  case 1
  then show ?case by (simp add: ParseQuery_loop.simps add_pairs_def)
qed (simp_all add: ParseQuery_loop_pair add_pairs_def)

lemma add_pairs_key:
  "map_of (add_pairs (map (Pair k) xs) m) =
     (if xs = [] then map_of m else (map_of m)(k \<mapsto> key_values m k @ xs))"
proof (induction xs arbitrary: m)
  case (Cons x xs)
  have "add_pairs (map (Pair k) (x # xs)) m = add_pairs (map (Pair k) xs) (values_add m k x)"
    by (simp add: add_pairs_def)
  then show ?case
    using Cons.IH [of "values_add m k x"] by (auto simp: values_add_def key_values_def)
qed (simp add: add_pairs_def)

lemma add_pairs_keys:
  assumes "distinct ks"
  shows "map_of (add_pairs (concat (map (\<lambda>k. map (Pair k) (f k)) ks)) m) x =
    (if x \<in> set ks \<and> f x \<noteq> [] then Some (key_values m x @ f x) else map_of m x)"
  using assms
proof (induction ks arbitrary: m)
  case (Cons k ks)
  let ?m = "add_pairs (map (Pair k) (f k)) m"
  have split: "add_pairs (concat (map (\<lambda>k. map (Pair k) (f k)) (k # ks))) m =
      add_pairs (concat (map (\<lambda>k. map (Pair k) (f k)) ks)) ?m"
    by (simp add: add_pairs_def)
  have "key_values ?m x = key_values m x" if "x \<noteq> k"
    using that by (simp add: key_values_def add_pairs_key)
  then show ?case
    unfolding split using Cons by (auto simp: add_pairs_key)
qed (simp add: add_pairs_def)

text \<open>Reading a query that was written gives the values back.\<close>

lemma ParseQuery_Values_Encode:
  assumes "distinct (map fst v)" and "\<forall>xs \<in> snd ` set v. xs \<noteq> []"
  shows "\<exists>v'. ParseQuery (Values_Encode v) = (v', None) \<and> map_of v' = map_of v"
proof -
  let ?ps = "concat (map (\<lambda>k. map (Pair k) (key_values v k)) (sort (map fst v)))"
  have "map_of (add_pairs ?ps []) x = map_of v x" for x
  proof (cases "map_of v x")
    case None
    then show ?thesis
      using assms(1) by (simp add: add_pairs_keys key_values_def)
  next
    case (Some xs)
    then have "x \<in> set (map fst v)" "xs \<noteq> []"
      using assms(2) by (auto dest!: map_of_SomeD intro: rev_image_eqI)
    then show ?thesis
      using assms(1) Some by (simp add: add_pairs_keys key_values_def)
  qed
  then have "map_of (add_pairs ?ps []) = map_of v" by (rule ext)
  then show ?thesis by (simp add: ParseQuery_def Values_Encode_def ParseQuery_join)
qed

text \<open>What \<open>ParseQuery\<close> returns is a map from keys to non-empty lists.\<close>

definition wf_values :: "url_values \<Rightarrow> bool" where
  "wf_values v \<longleftrightarrow> distinct (map fst v) \<and> (\<forall>k. map_of v k \<noteq> Some [])"

lemma wf_values_add: "wf_values m \<Longrightarrow> wf_values (values_add m k x)"
  by (auto simp: wf_values_def values_add_def distinct_AList_update split: option.splits)

lemma ParseQuery_loop_wf: "wf_values m \<Longrightarrow> wf_values (fst (ParseQuery_loop query m err))"
proof (induction query m err rule: ParseQuery_loop.induct)
  case (1 query m err)
  show ?case
  proof (cases "query = []")
    case True
    then show ?thesis using "1.prems" by (simp add: ParseQuery_loop.simps)
  next
    case False
    then show ?thesis
      using 1 by (subst ParseQuery_loop.simps) (auto simp: Let_def wf_values_add split: sum.splits)
  qed
qed

lemma ParseQuery_wf: "wf_values (fst (ParseQuery query))"
  unfolding ParseQuery_def by (rule ParseQuery_loop_wf) (simp add: wf_values_def)

text \<open>
  What a refresh of a server's entry does to its metadata: the query is read, \<open>tps\<close> is set to the
  empty string, and the values are written back.
\<close>

definition refresh_metadata :: "string \<Rightarrow> string" where
  "refresh_metadata value = (let (v, _) = ParseQuery value in Values_Encode (Values_Set v ''tps'' ''''))"

lemma refresh_metadata_parse:
  "\<exists>v'. ParseQuery (refresh_metadata value) = (v', None) \<and>
     map_of v' = (map_of (fst (ParseQuery value)))(''tps'' \<mapsto> [''''])"
proof -
  let ?v = "fst (ParseQuery value)"
  have wf: "wf_values ?v" by (rule ParseQuery_wf)
  then have set: "wf_values (Values_Set ?v ''tps'' '''')"
    by (auto simp: wf_values_def Values_Set_def distinct_AList_update)
  have "\<forall>xs \<in> snd ` set (Values_Set ?v ''tps'' ''''). xs \<noteq> []"
    using set by (force simp: wf_values_def dest: Some_eq_map_of_iff [THEN iffD2, rotated])
  then obtain v' where "ParseQuery (Values_Encode (Values_Set ?v ''tps'' '''')) = (v', None)"
      "map_of v' = map_of (Values_Set ?v ''tps'' '''')"
    using ParseQuery_Values_Encode [of "Values_Set ?v ''tps'' ''''"] set by (auto simp: wf_values_def)
  then show ?thesis by (cases "ParseQuery value") (simp add: refresh_metadata_def Values_Set_def)
qed

end
