(* ===== verification/Registry.thy ===== *)
theory Registry
  imports Url Client_Pool
begin

text \<open>
  \<open>src/registry\<close>: servers announce themselves in a key-value store (etcd or Consul), refresh their
  entries, and clients list and watch them.  The store behind \<open>libkv\<close> is a parameter; its state is
  shared by all that use it.
\<close>

section \<open>The store\<close>

type_synonym RegistryMode = int

definition Mode_Etcd :: RegistryMode where "Mode_Etcd = 0"
definition Mode_Consul :: RegistryMode where "Mode_Consul = 1"

text \<open>
  \<open>NewStore\<close> for a kind of store and its addresses, \<open>Put\<close> and \<open>Get\<close> of \<open>store.Store\<close>, and the nodes
  that the store's own client gives for a directory.  \<open>Put\<close> is given whether the node is a directory,
  and its time to live.
\<close>

datatype store_kind = ETCD | CONSUL

record 'k kv_ops =
  kv_NewStore :: "store_kind \<Rightarrow> string list \<Rightarrow> 'k \<Rightarrow> go_error option"
  kv_Put :: "string \<Rightarrow> string \<Rightarrow> bool \<Rightarrow> int \<Rightarrow> 'k \<Rightarrow> go_error option \<times> 'k"
  kv_Get :: "string \<Rightarrow> 'k \<Rightarrow> go_error + string"
  kv_List :: "string \<Rightarrow> 'k \<Rightarrow> go_error + (string \<times> string) list"

definition ErrKeyNotFound :: go_error where
  "ErrKeyNotFound = Sentinel ''Key not found in store''"

text \<open>\<open>List\<close>: with Consul the directory itself is left out, and it is an error if there is nothing.\<close>

definition store_List :: "'k kv_ops \<Rightarrow> store_kind \<Rightarrow> string \<Rightarrow> 'k \<Rightarrow> go_error + (string \<times> string) list" where
  "store_List ops kind dir k =
     (case kv_List ops dir k of
        Inl err \<Rightarrow> Inl err
      | Inr kv \<Rightarrow>
          if kind = CONSUL then
            if kv = [] then Inl ErrKeyNotFound else Inr [p \<leftarrow> kv. fst p \<noteq> dir]
          else Inr kv)"

fun Contains :: "string \<Rightarrow> string \<Rightarrow> bool" where
  "Contains [] p = (p = [])"
| "Contains (c # s) p = (HasPrefix (c # s) p \<or> Contains s p)"

text \<open>\<open>unicode.IsSpace\<close>, and whether \<open>strings.TrimSpace\<close> leaves nothing.\<close>

definition IsSpace :: "nat \<Rightarrow> bool" where
  "IsSpace r \<longleftrightarrow> r \<in> {9, 10, 11, 12, 13, 32, 0x85, 0xA0, 0x1680, 0x2028, 0x2029, 0x202F, 0x205F, 0x3000} \<or>
     0x2000 \<le> r \<and> r \<le> 0x200A"

definition rune_length :: "nat \<Rightarrow> nat" where
  "rune_length x = (if x < 0xC2 then 1 else if x \<le> 0xDF then 2 else if x \<le> 0xEF then 3 else 4)"

function blank :: "nat list \<Rightarrow> bool" where
  "blank s = (if s = [] then True else if IsSpace (DecodeRune s) then blank (drop (rune_length (hd s)) s) else False)"
  by pat_completeness auto
termination
  by (relation "measure length") (auto simp: rune_length_def)

declare blank.simps [simp del]

section \<open>Registering\<close>

text \<open>The struct of both registries.\<close>

record Register_state =
  rg_kind :: store_kind
  rg_ServiceAddress :: string
  rg_Addr :: "string list"
  rg_BasePath :: string
  rg_Services :: "string list"
  rg_metas :: "strmap option"
  rg_UpdateInterval :: int
  rg_store :: bool
  rg_ticking :: bool

definition new_register :: "store_kind \<Rightarrow> string \<Rightarrow> string \<Rightarrow> string list \<Rightarrow> int \<Rightarrow> Register_state" where
  "new_register kind base addr stores interval =
     \<lparr>rg_kind = kind, rg_ServiceAddress = addr, rg_Addr = stores, rg_BasePath = base, rg_Services = [],
      rg_metas = None, rg_UpdateInterval = interval, rg_store = False, rg_ticking = False\<rparr>"

definition NewEtcdRegistry :: "string \<Rightarrow> string \<Rightarrow> string list \<Rightarrow> int \<Rightarrow> Register_state" where
  "NewEtcdRegistry = new_register ETCD"

definition NewConsulRegistry :: "string \<Rightarrow> string \<Rightarrow> string list \<Rightarrow> int \<Rightarrow> Register_state" where
  "NewConsulRegistry = new_register CONSUL"

text \<open>\<open>NewRegistry\<close>; \<open>None\<close> is a nil interface.\<close>

definition NewRegistry :: "RegistryMode \<Rightarrow> string \<Rightarrow> string \<Rightarrow> string list \<Rightarrow> int \<Rightarrow> Register_state option" where
  "NewRegistry mode base addr stores interval =
     (if mode = Mode_Etcd then Some (NewEtcdRegistry base addr stores interval)
      else if mode = Mode_Consul then Some (NewConsulRegistry base addr stores interval)
      else None)"

definition open_store :: "'k kv_ops \<Rightarrow> Register_state \<Rightarrow> 'k \<Rightarrow> go_error option \<times> Register_state" where
  "open_store ops p k =
     (if rg_store p then (None, p)
      else
        (case kv_NewStore ops (rg_kind p) (rg_Addr p) k of
           Some err \<Rightarrow> (Some err, p)
         | None \<Rightarrow> (None, p\<lparr>rg_store := True\<rparr>)))"

text \<open>Creating the base path: with etcd an error that says the path is a directory already is ignored.\<close>

definition etcd_put_base :: "'k kv_ops \<Rightarrow> Register_state \<Rightarrow> 'k \<Rightarrow> go_error option \<times> 'k" where
  "etcd_put_base ops p k =
     (case kv_Put ops (rg_BasePath p) ''frpc_path'' True 0 k of
        (Some err, k) \<Rightarrow> (if Contains (error_text err) ''Not a file'' then None else Some err, k)
      | (None, k) \<Rightarrow> (None, k))"

definition EtcdRegister_Start ::
    "'k kv_ops \<Rightarrow> Register_state \<Rightarrow> 'k \<Rightarrow> go_error option \<times> Register_state \<times> 'k" where
  "EtcdRegister_Start ops p k =
     (case open_store ops p k of
        (Some err, p) \<Rightarrow> (Some err, p, k)
      | (None, p) \<Rightarrow>
          (case etcd_put_base ops p k of
             (Some err, k) \<Rightarrow> (Some err, p, k)
           | (None, k) \<Rightarrow> (None, p\<lparr>rg_ticking := rg_ticking p \<or> rg_UpdateInterval p > 0\<rparr>, k)))"

text \<open>\<open>Start\<close> with Consul; \<open>None\<close> is the panic of indexing an empty base path.\<close>

definition ConsulRegister_Start ::
    "'k kv_ops \<Rightarrow> Register_state \<Rightarrow> 'k \<Rightarrow> (go_error option \<times> Register_state \<times> 'k) option" where
  "ConsulRegister_Start ops p k =
     (case open_store ops p k of
        (Some err, p) \<Rightarrow> Some (Some err, p, k)
      | (None, p) \<Rightarrow>
          if rg_BasePath p = '''' then None
          else
            let p = (if hd (rg_BasePath p) = CHR ''/'' then p\<lparr>rg_BasePath := tl (rg_BasePath p)\<rparr> else p)
            in (case kv_Put ops (rg_BasePath p) ''frpc_path'' True 0 k of
                  (Some err, k) \<Rightarrow> Some (Some err, p, k)
                | (None, k) \<Rightarrow> Some (None, p\<lparr>rg_ticking := rg_ticking p \<or> rg_UpdateInterval p > 0\<rparr>, k)))"

text \<open>The method of the interface.\<close>

definition Registry_Start ::
    "'k kv_ops \<Rightarrow> Register_state \<Rightarrow> 'k \<Rightarrow> (go_error option \<times> Register_state \<times> 'k) option" where
  "Registry_Start ops p k =
     (case rg_kind p of ETCD \<Rightarrow> Some (EtcdRegister_Start ops p k) | CONSUL \<Rightarrow> ConsulRegister_Start ops p k)"

definition node_path :: "Register_state \<Rightarrow> string \<Rightarrow> string" where
  "node_path p name = rg_BasePath p @ ''/'' @ name @ ''/'' @ rg_ServiceAddress p"

text \<open>One turn of the ticker's loop: every service's entry is written again, or re-created if it is gone.\<close>

definition refresh_service :: "'k kv_ops \<Rightarrow> Register_state \<Rightarrow> string \<Rightarrow> 'k \<Rightarrow> 'k" where
  "refresh_service ops p name k =
     (case kv_Get ops (node_path p name) k of
        Inl err \<Rightarrow>
          snd (kv_Put ops (node_path p name)
            (case rg_metas p of None \<Rightarrow> '''' | Some ms \<Rightarrow> (case map_of ms name of None \<Rightarrow> '''' | Some v \<Rightarrow> v))
            False (rg_UpdateInterval p * 3) k)
      | Inr value \<Rightarrow> snd (kv_Put ops (node_path p name) (refresh_metadata value) False (rg_UpdateInterval p * 3) k))"

definition Registry_tick :: "'k kv_ops \<Rightarrow> Register_state \<Rightarrow> 'k \<Rightarrow> 'k" where
  "Registry_tick ops p k = fold (refresh_service ops p) (rg_Services p) k"

text \<open>The end of \<open>Register\<close>: the node of this server, and what the ticker needs to know.\<close>

definition announce_node ::
    "'k kv_ops \<Rightarrow> string \<Rightarrow> string \<Rightarrow> Register_state \<Rightarrow> 'k \<Rightarrow> go_error option \<times> Register_state \<times> 'k" where
  "announce_node ops name meta p k =
     (case kv_Put ops (node_path p name) meta False (rg_UpdateInterval p * 2) k of
        (Some err, k) \<Rightarrow> (Some err, p, k)
      | (None, k) \<Rightarrow>
          (None, p\<lparr>rg_Services := rg_Services p @ [name],
                  rg_metas := Some (AList.update name meta (case rg_metas p of None \<Rightarrow> [] | Some ms \<Rightarrow> ms))\<rparr>, k))"

definition register_nodes ::
    "'k kv_ops \<Rightarrow> string \<Rightarrow> string \<Rightarrow> Register_state \<Rightarrow> 'k \<Rightarrow> go_error option \<times> Register_state \<times> 'k" where
  "register_nodes ops name meta p k =
     (case kv_Put ops (rg_BasePath p @ ''/'' @ name) name True 0 k of
        (Some err, k) \<Rightarrow>
          if Contains (error_text err) ''Not a file'' then announce_node ops name meta p k else (Some err, p, k)
      | (None, k) \<Rightarrow> announce_node ops name meta p k)"

definition errEmptyName :: go_error where
  "errEmptyName = NewError (''Register service `name` can'' @ [CHR 0x27] @ ''t be empty'')"

definition EtcdRegister_Register ::
    "'k kv_ops \<Rightarrow> string \<Rightarrow> string \<Rightarrow> Register_state \<Rightarrow> 'k \<Rightarrow> go_error option \<times> Register_state \<times> 'k" where
  "EtcdRegister_Register ops name meta p k =
     (if blank (map of_char name) then (Some errEmptyName, p, k)
      else
        (case open_store ops p k of
           (Some err, p) \<Rightarrow> (Some err, p, k)
         | (None, p) \<Rightarrow>
             (case etcd_put_base ops p k of
                (Some err, k) \<Rightarrow> (Some err, p, k)
              | (None, k) \<Rightarrow> register_nodes ops name meta p k)))"

definition ConsulRegister_Register ::
    "'k kv_ops \<Rightarrow> string \<Rightarrow> string \<Rightarrow> Register_state \<Rightarrow> 'k \<Rightarrow> go_error option \<times> Register_state \<times> 'k" where
  "ConsulRegister_Register ops name meta p k =
     (if blank (map of_char name) then (Some errEmptyName, p, k)
      else
        (case open_store ops p k of
           (Some err, p) \<Rightarrow> (Some err, p, k)
         | (None, p) \<Rightarrow>
             (case kv_Put ops (rg_BasePath p) ''frpc_path'' True 0 k of
                (Some err, k) \<Rightarrow> (Some err, p, k)
              | (None, k) \<Rightarrow> register_nodes ops name meta p k)))"

definition Registry_Register ::
    "'k kv_ops \<Rightarrow> string \<Rightarrow> string \<Rightarrow> Register_state \<Rightarrow> 'k \<Rightarrow> go_error option \<times> Register_state \<times> 'k" where
  "Registry_Register ops name meta p k =
     (case rg_kind p of
        ETCD \<Rightarrow> EtcdRegister_Register ops name meta p k
      | CONSUL \<Rightarrow> ConsulRegister_Register ops name meta p k)"

lemmas Registry_defs = Registry_Start_def EtcdRegister_Start_def ConsulRegister_Start_def
  Registry_Register_def EtcdRegister_Register_def ConsulRegister_Register_def register_nodes_def

section \<open>Discovery\<close>

text \<open>
  The struct of both discoveries.  A channel is its index in \<open>d_buffers\<close>, the lists waiting in it;
  \<open>d_closed\<close> are the channels their users have closed.  \<open>d_watching\<close> says that \<open>watch\<close> is in its loop
  \<open>readChanges\<close>, \<open>d_returned\<close> that it has returned, \<open>d_delay\<close> is \<open>tempDelay\<close> and \<open>d_inflight\<close> are
  the goroutines that wait to send a list.
\<close>

record Discovery_state =
  d_kind :: store_kind
  d_basePath :: string
  d_pairs :: strmap
  d_chans :: "nat list"
  d_buffers :: "strmap list list"
  d_closed :: "nat list"
  d_stopped :: bool
  d_watching :: bool
  d_returned :: bool
  d_delay :: int
  d_inflight :: "(nat \<times> strmap) list"

definition entries :: "string \<Rightarrow> (string \<times> string) list \<Rightarrow> strmap" where
  "entries base kv = map (\<lambda>(key, value). (TrimPrefix key (base @ ''/''), value)) kv"

definition trim_slash :: "string \<Rightarrow> string" where
  "trim_slash base = (if length base > 1 \<and> HasSuffix base ''/'' then butlast base else base)"

text \<open>The common end of the two constructors; \<open>None\<close> is a panic.\<close>

definition list_services :: "'k kv_ops \<Rightarrow> store_kind \<Rightarrow> string \<Rightarrow> 'k \<Rightarrow> Discovery_state option" where
  "list_services ops kind base k =
     (let base = trim_slash base
      in (case store_List ops kind base k of
            Inl err \<Rightarrow> None
          | Inr kv \<Rightarrow>
              Some \<lparr>d_kind = kind, d_basePath = base, d_pairs = entries base kv, d_chans = [], d_buffers = [],
                d_closed = [], d_stopped = False, d_watching = False, d_returned = False, d_delay = 0,
                d_inflight = []\<rparr>))"

definition newEtcdDiscoveryStore :: "'k kv_ops \<Rightarrow> string \<Rightarrow> 'k \<Rightarrow> Discovery_state option" where
  "newEtcdDiscoveryStore ops base k = list_services ops ETCD base k"

definition newConsulDiscoveryStore :: "'k kv_ops \<Rightarrow> string \<Rightarrow> 'k \<Rightarrow> Discovery_state option" where
  "newConsulDiscoveryStore ops base k =
     (if base = '''' then None
      else list_services ops CONSUL (if hd base = CHR ''/'' then tl base else base) k)"

definition newDiscoveryStore :: "'k kv_ops \<Rightarrow> store_kind \<Rightarrow> string \<Rightarrow> 'k \<Rightarrow> Discovery_state option" where
  "newDiscoveryStore ops kind base k =
     (case kind of ETCD \<Rightarrow> newEtcdDiscoveryStore ops base k | CONSUL \<Rightarrow> newConsulDiscoveryStore ops base k)"

lemmas newDiscoveryStore_defs = newDiscoveryStore_def newEtcdDiscoveryStore_def newConsulDiscoveryStore_def
  list_services_def

definition NewEtcdDiscoveryOption ::
    "'k kv_ops \<Rightarrow> string \<Rightarrow> string \<Rightarrow> string list \<Rightarrow> 'k \<Rightarrow> Discovery_state option" where
  "NewEtcdDiscoveryOption ops base path stores k =
     (case kv_NewStore ops ETCD stores k of
        Some err \<Rightarrow> None
      | None \<Rightarrow> newEtcdDiscoveryStore ops (base @ ''/'' @ path) k)"

definition NewConsulDiscoveryOption ::
    "'k kv_ops \<Rightarrow> string \<Rightarrow> string \<Rightarrow> string list \<Rightarrow> 'k \<Rightarrow> Discovery_state option" where
  "NewConsulDiscoveryOption ops base path stores k =
     (case kv_NewStore ops CONSUL stores k of
        Some err \<Rightarrow> None
      | None \<Rightarrow> newConsulDiscoveryStore ops (base @ ''/'' @ path) k)"

definition NewDiscoveryOption ::
    "'k kv_ops \<Rightarrow> store_kind \<Rightarrow> string \<Rightarrow> string \<Rightarrow> string list \<Rightarrow> 'k \<Rightarrow> Discovery_state option" where
  "NewDiscoveryOption ops kind base path stores k =
     (case kind of
        ETCD \<Rightarrow> NewEtcdDiscoveryOption ops base path stores k
      | CONSUL \<Rightarrow> NewConsulDiscoveryOption ops base path stores k)"

lemmas NewDiscoveryOption_defs = NewDiscoveryOption_def NewEtcdDiscoveryOption_def NewConsulDiscoveryOption_def

text \<open>\<open>NewDiscovery\<close>; \<open>Some None\<close> is the nil interface of an unknown mode.\<close>

definition NewDiscovery ::
    "'k kv_ops \<Rightarrow> RegistryMode \<Rightarrow> string \<Rightarrow> string \<Rightarrow> string list \<Rightarrow> 'k \<Rightarrow> Discovery_state option option" where
  "NewDiscovery ops mode base path stores k =
     (if mode = Mode_Etcd then map_option Some (NewDiscoveryOption ops ETCD base path stores k)
      else if mode = Mode_Consul then map_option Some (NewDiscoveryOption ops CONSUL base path stores k)
      else Some None)"

definition EtcdDiscovery_Clone :: "'k kv_ops \<Rightarrow> string \<Rightarrow> Discovery_state \<Rightarrow> 'k \<Rightarrow> Discovery_state option" where
  "EtcdDiscovery_Clone ops path d k = newEtcdDiscoveryStore ops (d_basePath d @ ''/'' @ path) k"

definition ConsulDiscovery_Clone :: "'k kv_ops \<Rightarrow> string \<Rightarrow> Discovery_state \<Rightarrow> 'k \<Rightarrow> Discovery_state option" where
  "ConsulDiscovery_Clone ops path d k = newConsulDiscoveryStore ops (d_basePath d @ ''/'' @ path) k"

definition GetServices :: "Discovery_state \<Rightarrow> strmap" where
  "GetServices d = d_pairs d"

definition WatchService :: "Discovery_state \<Rightarrow> nat \<times> Discovery_state" where
  "WatchService d =
     (length (d_buffers d), d\<lparr>d_buffers := d_buffers d @ [[]], d_chans := d_chans d @ [length (d_buffers d)]\<rparr>)"

definition RemoveWatcher :: "nat \<Rightarrow> Discovery_state \<Rightarrow> Discovery_state" where
  "RemoveWatcher ch d = d\<lparr>d_chans := [c \<leftarrow> d_chans d. c \<noteq> ch]\<rparr>"

text \<open>\<open>Close\<close>: closing the stop channel again panics.\<close>

definition Discovery_Close :: "Discovery_state \<Rightarrow> Discovery_state option" where
  "Discovery_Close d = (if d_stopped d then None else Some (d\<lparr>d_stopped := True\<rparr>))"

text \<open>
  What can happen to \<open>watch\<close> and its goroutines: \<open>WatchTree\<close> fails or gives a channel; that channel
  delivers a list of nodes or nil; the stop channel is seen; the send of a goroutine succeeds, or is
  dropped after a minute; the user of a channel receives from it, or closes it.
\<close>

datatype watch_event =
    WatchTree_fails
  | WatchTree_opens
  | Changed "(string \<times> string) list option"
  | Stop_seen
  | Sent nat
  | Send_expires nat
  | Received nat
  | Chan_closed nat

definition watch_backoff :: "int \<Rightarrow> int" where
  "watch_backoff delay =
     (let delay = (if delay = 0 then 1 * second else delay * 2)
      in if delay > 30 * second then 30 * second else delay)"

definition without :: "nat \<Rightarrow> 'a list \<Rightarrow> 'a list" where
  "without i xs = take i xs @ drop (Suc i) xs"

definition chan_send :: "nat \<Rightarrow> Discovery_state \<Rightarrow> Discovery_state" where
  "chan_send i d =
     (if i < length (d_inflight d) then
        let (ch, pairs) = d_inflight d ! i
        in if ch \<in> set (d_closed d) then d\<lparr>d_inflight := without i (d_inflight d)\<rparr>
           else if length (d_buffers d ! ch) < 10 then
             d\<lparr>d_inflight := without i (d_inflight d),
               d_buffers := (d_buffers d)[ch := (d_buffers d ! ch) @ [pairs]]\<rparr>
           else d
      else d)"

definition read_change :: "(string \<times> string) list option \<Rightarrow> Discovery_state \<Rightarrow> Discovery_state" where
  "read_change change d =
     (case change of
        None \<Rightarrow> d\<lparr>d_watching := False, d_delay := 0\<rparr>
      | Some kv \<Rightarrow>
          let pairs = entries (d_basePath d) kv
          in d\<lparr>d_pairs := pairs, d_inflight := d_inflight d @ map (\<lambda>ch. (ch, pairs)) (d_chans d)\<rparr>)"

fun watch_step :: "watch_event \<Rightarrow> Discovery_state \<Rightarrow> Discovery_state" where
  "watch_step WatchTree_fails d =
     (if \<not> d_returned d \<and> \<not> d_watching d then d\<lparr>d_delay := watch_backoff (d_delay d)\<rparr> else d)"
| "watch_step WatchTree_opens d = (if \<not> d_returned d \<and> \<not> d_watching d then d\<lparr>d_watching := True\<rparr> else d)"
| "watch_step (Changed change) d = (if \<not> d_returned d \<and> d_watching d then read_change change d else d)"
| "watch_step Stop_seen d =
     (if d_stopped d \<and> \<not> d_returned d \<and> d_watching d then d\<lparr>d_watching := False, d_returned := True\<rparr> else d)"
| "watch_step (Sent i) d = chan_send i d"
| "watch_step (Send_expires i) d = d\<lparr>d_inflight := without i (d_inflight d)\<rparr>"
| "watch_step (Received ch) d =
     (if ch < length (d_buffers d) then d\<lparr>d_buffers := (d_buffers d)[ch := tl (d_buffers d ! ch)]\<rparr> else d)"
| "watch_step (Chan_closed ch) d = d\<lparr>d_closed := ch # d_closed d\<rparr>"


text \<open>
  \<open>watch\<close> of \<open>discovery_consul.go\<close>, which computes the prefix once per watch; it does the same, so
  what is shown of \<open>watch_step\<close> holds for both.
\<close>

definition consul_read_change :: "string \<Rightarrow> (string \<times> string) list option \<Rightarrow> Discovery_state \<Rightarrow> Discovery_state" where
  "consul_read_change prefix change d =
     (case change of
        None \<Rightarrow> d\<lparr>d_watching := False, d_delay := 0\<rparr>
      | Some ps \<Rightarrow>
          let pairs = foldl (\<lambda>pairs p. pairs @ [(TrimPrefix (fst p) prefix, snd p)]) [] ps
          in d\<lparr>d_pairs := pairs, d_inflight := d_inflight d @ map (\<lambda>ch. (ch, pairs)) (d_chans d)\<rparr>)"

fun ConsulDiscovery_watch :: "watch_event \<Rightarrow> Discovery_state \<Rightarrow> Discovery_state" where
  "ConsulDiscovery_watch WatchTree_fails d =
     (if \<not> d_returned d \<and> \<not> d_watching d then d\<lparr>d_delay := watch_backoff (d_delay d)\<rparr> else d)"
| "ConsulDiscovery_watch WatchTree_opens d =
     (if \<not> d_returned d \<and> \<not> d_watching d then d\<lparr>d_watching := True\<rparr> else d)"
| "ConsulDiscovery_watch (Changed change) d =
     (if \<not> d_returned d \<and> d_watching d then consul_read_change (d_basePath d @ ''/'') change d else d)"
| "ConsulDiscovery_watch Stop_seen d =
     (if d_stopped d \<and> \<not> d_returned d \<and> d_watching d then d\<lparr>d_watching := False, d_returned := True\<rparr> else d)"
| "ConsulDiscovery_watch (Sent i) d = chan_send i d"
| "ConsulDiscovery_watch (Send_expires i) d = d\<lparr>d_inflight := without i (d_inflight d)\<rparr>"
| "ConsulDiscovery_watch (Received ch) d =
     (if ch < length (d_buffers d) then d\<lparr>d_buffers := (d_buffers d)[ch := tl (d_buffers d ! ch)]\<rparr> else d)"
| "ConsulDiscovery_watch (Chan_closed ch) d = d\<lparr>d_closed := ch # d_closed d\<rparr>"

lemma entries_loop:
  "foldl (\<lambda>pairs p. pairs @ [(TrimPrefix (fst p) (base @ ''/''), snd p)]) acc ps = acc @ entries base ps"
  by (induction ps arbitrary: acc) (simp_all add: entries_def case_prod_unfold)

lemma ConsulDiscovery_watch_eq: "ConsulDiscovery_watch ev d = watch_step ev d"
proof (cases ev)
  case (Changed change)
  then show ?thesis
    by (cases change) (simp_all add: consul_read_change_def read_change_def entries_loop Let_def)
qed simp_all

section \<open>What is registered is discovered\<close>

text \<open>
  What the two stores document.  \<open>content\<close> is what a state of the store holds.  The keys of etcd begin
  with a slash.  A \<open>Put\<close> changes no other key, and one that succeeds on a file leaves the value there.
  The nodes given for a directory are different ones that the store holds, begin with its name, and
  include the files directly in it.
\<close>

definition canon :: "store_kind \<Rightarrow> string \<Rightarrow> string" where
  "canon kind path = (if kind = ETCD \<and> \<not> HasPrefix path ''/'' then ''/'' @ path else path)"

definition put_law :: "store_kind \<Rightarrow> 'k kv_ops \<Rightarrow> ('k \<Rightarrow> string \<Rightarrow> string option) \<Rightarrow> bool" where
  "put_law kind ops content \<longleftrightarrow>
     (\<forall>path v dir ttl k err k'. kv_Put ops path v dir ttl k = (err, k') \<longrightarrow>
        (\<forall>q. q \<noteq> canon kind path \<longrightarrow> content k' q = content k q) \<and>
        (err = None \<and> \<not> dir \<longrightarrow> content k' (canon kind path) = Some v))"

definition list_law :: "store_kind \<Rightarrow> 'k kv_ops \<Rightarrow> ('k \<Rightarrow> string \<Rightarrow> string option) \<Rightarrow> bool" where
  "list_law kind ops content \<longleftrightarrow>
     (\<forall>dir k kv. kv_List ops dir k = Inr kv \<longrightarrow>
        distinct (map fst kv) \<and>
        (\<forall>q v. (q, v) \<in> set kv \<longrightarrow> content k q = Some v \<and> HasPrefix q (canon kind dir)) \<and>
        (\<forall>leaf v. leaf \<noteq> '''' \<and> CHR ''/'' \<notin> set leaf \<and> content k (canon kind dir @ ''/'' @ leaf) = Some v \<longrightarrow>
           (canon kind dir @ ''/'' @ leaf, v) \<in> set kv))"

lemma pairs_to_map_snoc: "pairs_to_map (ps @ [(k, v)]) = AList.update k v (pairs_to_map ps)"
  by (simp add: pairs_to_map_def)

lemma pairs_to_map_unique:
  assumes "(k, v) \<in> set ps" and "\<forall>v'. (k, v') \<in> set ps \<longrightarrow> v' = v"
  shows "map_of (pairs_to_map ps) k = Some v"
  using assms
proof (induction ps rule: rev_induct)
  case (snoc p ps)
  obtain k' v' where p: "p = (k', v')" by (cases p)
  show ?case
  proof (cases "k' = k")
    case True
    then have "v' = v" using p snoc.prems(2) [rule_format, of v'] by simp
    then show ?thesis using True p by (simp add: pairs_to_map_snoc update_conv')
  next
    case False
    then have "(k, v) \<in> set ps" using snoc.prems(1) p by simp
    moreover have "\<forall>v'. (k, v') \<in> set ps \<longrightarrow> v' = v"
      using snoc.prems(2) unfolding set_append by blast
    ultimately have "map_of (pairs_to_map ps) k = Some v" by (rule snoc.IH)
    then show ?thesis using False p by (simp add: pairs_to_map_snoc update_conv')
  qed
qed simp

lemma HasPrefix_iff: "HasPrefix s p \<longleftrightarrow> (\<exists>r. s = p @ r)"
  by (metis HasPrefix_def append_eq_conv_conj append_take_drop_id)

text \<open>
  The name under which the nodes of a directory appear: an etcd key is only shortened if the directory
  was given with its slash.
\<close>

definition shown_as :: "store_kind \<Rightarrow> string \<Rightarrow> string \<Rightarrow> string" where
  "shown_as kind dir leaf = (if canon kind dir = dir then leaf else ''/'' @ dir @ ''/'' @ leaf)"

lemma TrimPrefix_unique:
  assumes "HasPrefix q (canon kind dir)" and "leaf \<noteq> ''''" and "CHR ''/'' \<notin> set leaf" and "CHR ''/'' \<in> set dir"
  shows "TrimPrefix q (dir @ ''/'') = shown_as kind dir leaf \<longleftrightarrow> q = canon kind dir @ ''/'' @ leaf"
proof (cases "canon kind dir = dir")
  case True
  obtain r where q: "q = dir @ r" using assms(1) True by (auto simp: HasPrefix_iff)
  have "CHR ''/'' \<in> set q" using assms(4) q by simp
  then have "q \<noteq> leaf" using assms(3) by auto
  then show ?thesis
    using True q by (auto simp: TrimPrefix_def HasPrefix_iff shown_as_def)
next
  case False
  then have c: "canon kind dir = ''/'' @ dir" "\<not> HasPrefix dir ''/''" by (auto simp: canon_def split: if_splits)
  obtain r where q: "q = CHR ''/'' # dir @ r" using assms(1) c(1) by (auto simp: HasPrefix_iff)
  have "dir \<noteq> []" using assms(4) by auto
  then have "\<not> HasPrefix q (dir @ ''/'')"
    using c(2) q by (cases dir) (auto simp: HasPrefix_iff)
  then show ?thesis using False c q by (simp add: TrimPrefix_def shown_as_def)
qed


lemma listed_is_shown:
  assumes "list_law kind ops content" and "store_List ops kind dir k = Inr kv"
    and "content k (canon kind dir @ ''/'' @ leaf) = Some v"
    and leaf: "leaf \<noteq> ''''" "CHR ''/'' \<notin> set leaf" "CHR ''/'' \<in> set dir"
  shows "map_of (pairs_to_map (entries dir kv)) (shown_as kind dir leaf) = Some v"
proof (rule pairs_to_map_unique)
  obtain kv' where all: "kv_List ops dir k = Inr kv'" and kv: "set kv \<subseteq> set kv'"
    and keep: "\<forall>p \<in> set kv'. fst p \<noteq> dir \<longrightarrow> p \<in> set kv" "kind \<noteq> CONSUL \<longrightarrow> kv = kv'"
    using assms(2) by (auto simp: store_List_def split: sum.splits if_splits)
  have law: "distinct (map fst kv')" "\<forall>q v. (q, v) \<in> set kv' \<longrightarrow> content k q = Some v \<and> HasPrefix q (canon kind dir)"
    "(canon kind dir @ ''/'' @ leaf, v) \<in> set kv'"
    using assms(1,3) all leaf unfolding list_law_def by blast+
  have "length (canon kind dir @ ''/'' @ leaf) > length dir" by (simp add: canon_def)
  then have "canon kind dir @ ''/'' @ leaf \<noteq> dir" by (metis less_irrefl)
  then have "(canon kind dir @ ''/'' @ leaf, v) \<in> set kv" using keep(1) law(3) by fastforce
  moreover have "HasPrefix (canon kind dir @ ''/'' @ leaf) (canon kind dir)" by (simp add: HasPrefix_def)
  note TrimPrefix_unique [OF this leaf]
  ultimately show "(shown_as kind dir leaf, v) \<in> set (entries dir kv)"
    unfolding entries_def by force
  show "\<forall>v'. (shown_as kind dir leaf, v') \<in> set (entries dir kv) \<longrightarrow> v' = v"
  proof (intro allI impI)
    fix v'
    assume "(shown_as kind dir leaf, v') \<in> set (entries dir kv)"
    then obtain q where q: "(q, v') \<in> set kv" "TrimPrefix q (dir @ ''/'') = shown_as kind dir leaf"
      by (auto simp: entries_def)
    then have held: "content k q = Some v'" "HasPrefix q (canon kind dir)" using law(2) kv by blast+
    have "q = canon kind dir @ ''/'' @ leaf" using TrimPrefix_unique [OF held(2) leaf] q(2) by blast
    then show "v' = v" using held(1) assms(3) by simp
  qed
qed

text \<open>The directory of a service, as the discoveries name it and as the registries do after \<open>Start\<close>.\<close>

definition service_dir :: "store_kind \<Rightarrow> string \<Rightarrow> string \<Rightarrow> string" where
  "service_dir kind base name = (if kind = CONSUL \<and> hd base = CHR ''/'' then tl base else base) @ ''/'' @ name"

lemma open_store_keeps:
  "open_store ops p k = (err, p') \<Longrightarrow> rg_BasePath p' = rg_BasePath p \<and> rg_kind p' = rg_kind p \<and>
     rg_ServiceAddress p' = rg_ServiceAddress p"
  by (auto simp: open_store_def split: if_splits option.splits)

lemma Registry_Start_path:
  assumes "Registry_Start ops (new_register kind base addr stores interval) k = Some (None, p, k')"
  shows "rg_kind p = kind" and "rg_BasePath p @ ''/'' @ name = service_dir kind base name"
    and "rg_ServiceAddress p = addr" and "kind = CONSUL \<longrightarrow> base \<noteq> ''''"
proof -
  obtain p1 where p1: "open_store ops (new_register kind base addr stores interval) k = (None, p1)"
    using assms by (auto simp: Registry_defs split: store_kind.splits prod.splits option.splits)
  have kind: "rg_kind (new_register kind base addr stores interval) = kind" by (simp add: new_register_def)
  have same: "rg_BasePath p1 = base" "rg_kind p1 = kind" "rg_ServiceAddress p1 = addr"
    using open_store_keeps [OF p1] by (simp_all add: new_register_def)
  show "rg_kind p = kind" "rg_BasePath p @ ''/'' @ name = service_dir kind base name" "rg_ServiceAddress p = addr"
      "kind = CONSUL \<longrightarrow> base \<noteq> ''''"
    using assms same unfolding Registry_defs p1 kind
    by (auto simp: service_dir_def Let_def split: store_kind.splits prod.splits option.splits if_splits)
qed

lemma Registry_Register_puts:
  assumes "put_law (rg_kind p) ops content" and "Registry_Register ops name meta p k = (None, p', k')"
  shows "content k' (canon (rg_kind p) (rg_BasePath p @ ''/'' @ name @ ''/'' @ rg_ServiceAddress p)) = Some meta"
    and "name \<noteq> ''''" and "rg_Services p' = rg_Services p @ [name]"
proof -
  obtain p1 where p1: "open_store ops p k = (None, p1)"
    using assms(2) by (auto simp: Registry_defs split: store_kind.splits prod.splits option.splits if_splits)
  have same: "rg_BasePath p1 = rg_BasePath p" "rg_kind p1 = rg_kind p" "rg_ServiceAddress p1 = rg_ServiceAddress p"
    using open_store_keeps [OF p1] by simp_all
  have svc: "rg_Services p1 = rg_Services p"
    using p1 by (auto simp: open_store_def split: if_splits option.splits)
  obtain k1 where ann: "announce_node ops name meta p1 k1 = (None, p', k')"
    using assms(2) p1 by (auto simp: Registry_defs split: store_kind.splits prod.splits option.splits if_splits)
  then have put: "kv_Put ops (node_path p1 name) meta False (rg_UpdateInterval p1 * 2) k1 = (None, k')"
      and p': "rg_Services p' = rg_Services p1 @ [name]"
    by (auto simp: announce_node_def split: prod.splits option.splits)
  show "content k' (canon (rg_kind p) (rg_BasePath p @ ''/'' @ name @ ''/'' @ rg_ServiceAddress p)) = Some meta"
    using assms(1) put same unfolding put_law_def node_path_def by metis
  show "rg_Services p' = rg_Services p @ [name]" using p' svc by simp
  show "name \<noteq> ''''"
    using assms(2) by (auto simp: Registry_defs blank.simps split: store_kind.splits)
qed


lemma canon_append: "dir \<noteq> [] \<Longrightarrow> canon kind (dir @ rest) = canon kind dir @ rest"
  by (cases dir) (auto simp: canon_def HasPrefix_def)

lemma newDiscoveryStore_lists:
  assumes "newDiscoveryStore ops kind (base @ ''/'' @ name) k = Some d"
    and "kind = CONSUL \<longrightarrow> base \<noteq> ''''" and "name \<noteq> ''''" and "last name \<noteq> CHR ''/''"
  obtains kv where "store_List ops kind (service_dir kind base name) k = Inr kv"
    and "GetServices d = entries (service_dir kind base name) kv" and "d_basePath d = service_dir kind base name"
proof -
  have "\<not> HasSuffix (service_dir kind base name) ''/''"
    using assms(3,4) by (cases name rule: rev_cases) (auto simp: service_dir_def HasSuffix_def)
  then have "trim_slash (service_dir kind base name) = service_dir kind base name"
    by (simp add: trim_slash_def)
  moreover have "(if kind = CONSUL \<and> hd (base @ ''/'' @ name) = CHR ''/'' then tl (base @ ''/'' @ name)
      else base @ ''/'' @ name) = service_dir kind base name"
    using assms(2) by (cases base) (auto simp: service_dir_def)
  ultimately show ?thesis
    using assms(1) that by (auto simp: newDiscoveryStore_defs GetServices_def Let_def split: store_kind.splits sum.splits if_splits)
qed

lemma discovery_finds:
  assumes laws: "list_law kind ops content"
    and "NewDiscoveryOption ops kind base name stores k = Some d"
    and held: "content k (canon kind (service_dir kind base name @ ''/'' @ addr)) = Some meta"
    and names: "kind = CONSUL \<longrightarrow> base \<noteq> ''''" "name \<noteq> ''''" "last name \<noteq> CHR ''/''"
      "addr \<noteq> ''''" "CHR ''/'' \<notin> set addr"
  shows "map_of (pairs_to_map (GetServices d)) (shown_as kind (service_dir kind base name) addr) = Some meta"
proof -
  have "newDiscoveryStore ops kind (base @ ''/'' @ name) k = Some d"
    using assms(2) by (simp add: NewDiscoveryOption_defs newDiscoveryStore_def split: option.splits store_kind.splits)
  then obtain kv where kv: "store_List ops kind (service_dir kind base name) k = Inr kv"
      "GetServices d = entries (service_dir kind base name) kv"
    using names(1-3) by (rule newDiscoveryStore_lists)
  have dir: "CHR ''/'' \<in> set (service_dir kind base name)" by (simp add: service_dir_def)
  then have "service_dir kind base name \<noteq> []" by force
  then have "content k (canon kind (service_dir kind base name) @ ''/'' @ addr) = Some meta"
    using held by (simp add: canon_append)
  from listed_is_shown [OF laws kv(1) this names(4,5) dir] show ?thesis by (simp add: kv(2))
qed


text \<open>A store in memory that keeps the laws.\<close>

definition mem_store :: "store_kind \<Rightarrow> strmap kv_ops" where
  "mem_store kind =
     \<lparr>kv_NewStore = \<lambda>_ _ _. None,
      kv_Put = \<lambda>path v dir ttl k. (None, if dir \<and> kind = ETCD then k else AList.update (canon kind path) v k),
      kv_Get = \<lambda>path k. (case map_of k (canon kind path) of None \<Rightarrow> Inl ErrKeyNotFound | Some v \<Rightarrow> Inr v),
      kv_List = \<lambda>dir k. Inr [p \<leftarrow> AList.clearjunk k. HasPrefix (fst p) (canon kind dir)]\<rparr>"

lemma mem_store_put: "put_law kind (mem_store kind) map_of"
  by (auto simp: put_law_def mem_store_def update_conv')

lemma mem_store_list: "list_law kind (mem_store kind) map_of"
proof -
  have "(q, v) \<in> set (AList.clearjunk k) \<longleftrightarrow> map_of k q = Some v" for q v and k :: strmap
    using distinct_clearjunk [of k] map_of_clearjunk [of k] by (metis map_of_eq_Some_iff)
  moreover have "distinct (map fst [p \<leftarrow> AList.clearjunk k. P p])" for k :: strmap and P
    using distinct_clearjunk [of k] by (rule distinct_map_filter)
  ultimately show ?thesis by (simp add: list_law_def mem_store_def HasPrefix_def)
qed

text \<open>With Consul a client is also given the nodes of a service whose name only begins like its own,
  under their whole keys.\<close>

lemma consul_lists_prefixes:
  "GetServices (the (newConsulDiscoveryStore (mem_store CONSUL) ''/frpc/Arith''
      [(''frpc/Arith/tcp@a:1'', ''''), (''frpc/Arith2/tcp@b:1'', '''')])) =
     [(''tcp@a:1'', ''''), (''frpc/Arith2/tcp@b:1'', '''')]"
  by code_simp

section \<open>The ticker keeps an entry alive\<close>

definition get_law :: "store_kind \<Rightarrow> 'k kv_ops \<Rightarrow> ('k \<Rightarrow> string \<Rightarrow> string option) \<Rightarrow> bool" where
  "get_law kind ops content \<longleftrightarrow>
     (\<forall>path k v. kv_Get ops path k = Inr v \<longrightarrow> content k (canon kind path) = Some v)"

text \<open>Metadata that say the same but for \<open>tps\<close>.\<close>

definition agrees :: "string \<Rightarrow> string \<Rightarrow> bool" where
  "agrees meta v \<longleftrightarrow> snd (ParseQuery v) = None \<and>
     (\<forall>key. key \<noteq> ''tps'' \<longrightarrow> map_of (fst (ParseQuery v)) key = map_of (fst (ParseQuery meta)) key)"

lemma agrees_refresh: "agrees meta v \<Longrightarrow> agrees meta (refresh_metadata v)"
  using refresh_metadata_parse [of v] by (auto simp: agrees_def)

lemma agrees_weight:
  assumes "agrees meta v" and "snd (ParseQuery meta) = None"
  shows "createWeighted [(a, v)] = createWeighted [(a, meta)]"
proof -
  obtain x y where "ParseQuery v = (x, None)" "ParseQuery meta = (y, None)"
    using assms by (metis agrees_def prod.collapse)
  moreover from this have "values_Get x ''weight'' = values_Get y ''weight''"
    using assms(1) by (simp add: agrees_def values_Get_def)
  ultimately show ?thesis by (simp add: createWeighted_def)
qed

lemma node_path_inj: "canon kind (node_path p name) = canon kind (node_path p name') \<longleftrightarrow> name = name'"
proof -
  have "node_path p name = node_path p name' \<longleftrightarrow> name = name'" by (simp add: node_path_def)
  moreover have "HasPrefix (node_path p name) ''/'' = HasPrefix (node_path p name') ''/''"
    by (cases "rg_BasePath p") (simp_all add: node_path_def HasPrefix_def)
  ultimately show ?thesis by (simp add: canon_def)
qed


definition puts_succeed :: "'k kv_ops \<Rightarrow> bool" where
  "puts_succeed ops \<longleftrightarrow> (\<forall>path v dir ttl k. fst (kv_Put ops path v dir ttl k) = None)"

lemma refresh_other:
  assumes "put_law kind ops content" and "name \<noteq> name'"
  shows "content (refresh_service ops p name' k) (canon kind (node_path p name)) =
    content k (canon kind (node_path p name))"
proof -
  have "content (snd (kv_Put ops (node_path p name') v dir ttl k)) (canon kind (node_path p name)) =
      content k (canon kind (node_path p name))" for v dir ttl
    using assms node_path_inj unfolding put_law_def by (metis prod.collapse)
  then show ?thesis by (simp add: refresh_service_def split: sum.splits)
qed

lemma refresh_same:
  assumes "put_law kind ops content" and "get_law kind ops content" and "puts_succeed ops"
    and "rg_metas p = Some ms" and "map_of ms name = Some meta" and "agrees meta meta"
    and "\<forall>v. content k (canon kind (node_path p name)) = Some v \<longrightarrow> agrees meta v"
  shows "\<exists>v. content (refresh_service ops p name k) (canon kind (node_path p name)) = Some v \<and> agrees meta v"
proof -
  have put: "content (snd (kv_Put ops (node_path p name) v False ttl k)) (canon kind (node_path p name)) = Some v"
    for v ttl
    using assms(1,3) unfolding put_law_def puts_succeed_def by (metis prod.collapse)
  show ?thesis
  proof (cases "kv_Get ops (node_path p name) k")
    case (Inl err)
    then show ?thesis using put assms(4-6) by (simp add: refresh_service_def)
  next
    case (Inr v)
    then have "agrees meta v" using assms(2,7) by (simp add: get_law_def)
    then show ?thesis using Inr put by (simp add: refresh_service_def agrees_refresh)
  qed
qed

lemma refresh_fold:
  assumes "put_law kind ops content" and "get_law kind ops content" and "puts_succeed ops"
    and "rg_metas p = Some ms" and "map_of ms name = Some meta" and "agrees meta meta"
    and "\<forall>v. content k (canon kind (node_path p name)) = Some v \<longrightarrow> agrees meta v"
    and "name \<in> set names \<or> (\<exists>v. content k (canon kind (node_path p name)) = Some v)"
  shows "\<exists>v. content (fold (refresh_service ops p) names k) (canon kind (node_path p name)) = Some v \<and> agrees meta v"
  using assms(7,8)
proof (induction names arbitrary: k)
  case (Cons n names)
  show ?case
  proof (cases "n = name")
    case True
    note refresh_same [OF assms(1-6) Cons.prems(1)]
    then show ?thesis using Cons.IH [of "refresh_service ops p n k"] True by auto
  next
    case False
    then have "content (refresh_service ops p n k) (canon kind (node_path p name)) =
        content k (canon kind (node_path p name))"
      using refresh_other [OF assms(1)] by metis
    then show ?thesis using Cons.IH [of "refresh_service ops p n k"] Cons.prems False by simp
  qed
qed auto



lemma mem_store_get: "get_law kind (mem_store kind) map_of"
  by (simp add: get_law_def mem_store_def split: option.splits)

lemma mem_store_puts: "puts_succeed (mem_store kind)"
  by (simp add: puts_succeed_def mem_store_def)

definition sample_register :: Register_state where
  "sample_register = (new_register ETCD ''/frpc'' ''tcp@a:1'' [''etcd:2379''] 60)
     \<lparr>rg_Services := [''Echo'', ''Arith''], rg_metas := Some [(''Arith'', ''weight=4''), (''Echo'', '''')]\<rparr>"



section \<open>Watching\<close>

text \<open>Every list that waits in a channel or for a send is one the store gave, and no buffer overflows.\<close>

definition watch_inv :: "strmap set \<Rightarrow> Discovery_state \<Rightarrow> bool" where
  "watch_inv given d \<longleftrightarrow>
     (\<forall>b \<in> set (d_buffers d). length b \<le> 10 \<and> set b \<subseteq> given) \<and>
     snd ` set (d_inflight d) \<subseteq> given \<and> fst ` set (d_inflight d) \<subseteq> {..<length (d_buffers d)} \<and>
     set (d_chans d) \<subseteq> {..<length (d_buffers d)} \<and> 0 \<le> d_delay d \<and> d_delay d \<le> 30 * second"

fun given_by :: "string \<Rightarrow> watch_event \<Rightarrow> strmap set" where
  "given_by base (Changed (Some kv)) = {entries base kv}"
| "given_by base _ = {}"

lemma set_without: "set (without i xs) \<subseteq> set xs"
  by (auto simp: without_def dest: in_set_takeD in_set_dropD)

lemma watch_inv_less:
  assumes "watch_inv given d"
  shows "watch_inv given (d\<lparr>d_inflight := without i (d_inflight d)\<rparr>)"
proof -
  have "snd ` set (without i (d_inflight d)) \<subseteq> given"
      "fst ` set (without i (d_inflight d)) \<subseteq> {..<length (d_buffers d)}"
    using assms image_mono [OF set_without] unfolding watch_inv_def by (meson subset_trans)+
  then show ?thesis using assms by (simp add: watch_inv_def)
qed

lemma watch_inv_buffer:
  assumes "watch_inv given d" and "length b \<le> 10" and "set b \<subseteq> given"
  shows "watch_inv given (d\<lparr>d_buffers := (d_buffers d)[ch := b]\<rparr>)"
  using assms set_update_subset_insert [of "d_buffers d" ch b] unfolding watch_inv_def by auto

lemma chan_send_inv:
  assumes "watch_inv given d"
  shows "watch_inv given (chan_send i d)"
proof (cases "i < length (d_inflight d)")
  case True
  obtain ch pairs where p: "d_inflight d ! i = (ch, pairs)" by (cases "d_inflight d ! i")
  have "(ch, pairs) \<in> set (d_inflight d)" using True p by (metis nth_mem)
  then have ch: "ch < length (d_buffers d)" "pairs \<in> given" using assms by (force simp: watch_inv_def)+
  then have "set (d_buffers d ! ch) \<subseteq> given" using assms nth_mem [of ch "d_buffers d"] by (auto simp: watch_inv_def)
  then have "watch_inv given ((d\<lparr>d_inflight := without i (d_inflight d)\<rparr>)
      \<lparr>d_buffers := (d_buffers (d\<lparr>d_inflight := without i (d_inflight d)\<rparr>))[ch := d_buffers d ! ch @ [pairs]]\<rparr>)"
    if "length (d_buffers d ! ch) < 10"
    using that ch(2) watch_inv_less [OF assms] by (intro watch_inv_buffer) auto
  then show ?thesis using assms watch_inv_less [OF assms] True p by (simp add: chan_send_def)
qed (simp add: assms chan_send_def)

lemma watch_step_inv:
  assumes "watch_inv given d"
  shows "watch_inv (given \<union> given_by (d_basePath d) ev) (watch_step ev d)"
proof (cases ev)
  case (Changed change)
  show ?thesis
    using assms Changed by (cases change) (auto simp: watch_inv_def read_change_def Let_def second_def)
next
  case (Sent i)
  then show ?thesis using chan_send_inv [OF assms] by simp
next
  case (Send_expires i)
  then show ?thesis using watch_inv_less [OF assms] by simp
next
  case (Received ch)
  have "watch_inv given (d\<lparr>d_buffers := (d_buffers d)[ch := tl (d_buffers d ! ch)]\<rparr>)" if "ch < length (d_buffers d)"
  proof (rule watch_inv_buffer [OF assms])
    have "length (d_buffers d ! ch) \<le> 10" "set (d_buffers d ! ch) \<subseteq> given"
      using assms that nth_mem [of ch "d_buffers d"] by (auto simp: watch_inv_def)
    then show "length (tl (d_buffers d ! ch)) \<le> 10" "set (tl (d_buffers d ! ch)) \<subseteq> given"
      by (cases "d_buffers d ! ch"; simp)+
  qed
  then show ?thesis using Received assms by simp
qed (use assms in \<open>auto simp: watch_inv_def watch_backoff_def second_def\<close>)

lemma watch_step_base: "d_basePath (watch_step ev d) = d_basePath d"
proof (cases ev)
  case (Changed change)
  then show ?thesis by (cases change) (simp_all add: read_change_def Let_def)
next
  case (Sent i)
  then show ?thesis by (simp add: chan_send_def Let_def case_prod_unfold)
qed simp_all

lemma watch_steps_inv:
  assumes "watch_inv given d"
  shows "watch_inv (given \<union> (\<Union>ev \<in> set evs. given_by (d_basePath d) ev)) (fold watch_step evs d)"
  using assms
proof (induction evs arbitrary: d given)
  case (Cons ev evs)
  from Cons.IH [OF watch_step_inv [OF Cons.prems, of ev]] show ?case
    by (simp add: watch_step_base Un_assoc)
qed simp

text \<open>C39: The lists a client receives from the registry need not come in the order of the changes.  Each
  change starts a goroutine of its own per channel, so of two changes in a row the later one can be
  sent first; then the discovery has the new list, but the client, who takes what it receives last,
  ends with the old one.\<close>

theorem notifications_reordered:
  assumes "d_watching d" and "\<not> d_returned d" and "d_chans d = [ch]" and "d_inflight d = []"
    and "ch < length (d_buffers d)" and "d_buffers d ! ch = []" and "ch \<notin> set (d_closed d)" and "watching c"
    and "d' = fold watch_step [Changed (Some old), Changed (Some new), Sent 1, Sent 0] d"
  shows "GetServices d' = entries (d_basePath d) new \<and> d_inflight d' = [] \<and>
    servers (fold watch (d_buffers d' ! ch) c) = Some (pairs_to_map (entries (d_basePath d) old))"
  using assms by (simp add: read_change_def chan_send_def without_def GetServices_def watch_def Let_def)


definition sample_discovery :: Discovery_state where
  "sample_discovery = snd (WatchService
     (watch_step WatchTree_opens (the (newDiscoveryStore (mem_store ETCD) ETCD ''/frpc/Arith'' []))))"

theorem notifications_reordered_witness:
  "servers (fold watch (d_buffers (fold watch_step
      [Changed (Some [(''/frpc/Arith/tcp@a:1'', '''')]), Changed (Some [(''/frpc/Arith/tcp@b:1'', '''')]), Sent 1, Sent 0]
      sample_discovery) ! 0) sample_xclient) = Some [(''tcp@a:1'', '''')]"
proof -
  have d: "sample_discovery = \<lparr>d_kind = ETCD, d_basePath = ''/frpc/Arith'', d_pairs = [], d_chans = [0], d_buffers = [[]],
      d_closed = [], d_stopped = False, d_watching = True, d_returned = False, d_delay = 0, d_inflight = []\<rparr>"
    by code_simp
  have p: "pairs_to_map (entries ''/frpc/Arith'' [(''/frpc/Arith/tcp@a:1'', '''')]) = [(''tcp@a:1'', '''')]"
    by code_simp
  have c: "watching sample_xclient" by (simp add: sample_xclient_def)
  show ?thesis
    using notifications_reordered [of sample_discovery 0 sample_xclient, OF _ _ _ _ _ _ _ c refl,
        of "[(''/frpc/Arith/tcp@a:1'', '''')]" "[(''/frpc/Arith/tcp@b:1'', '''')]"]
    by (simp add: d p)
qed

end
