(* ===== verification/Registry_Use.thy ===== *)
theory Registry_Use
  imports Registry Server_Accept
begin

text \<open>
  How the server and the client use the registry: \<open>src/server/server_registry.go\<close> and the whole of
  \<open>Discovery\<close> in \<open>src/client/client_registry.go\<close>.  The registry of a server is its struct together with
  the state of the store.
\<close>

section \<open>The server's and the client's side\<close>

text \<open>\<open>Registry\<close> of the server drops the error of \<open>Start\<close>.  \<open>None\<close> is a panic: a nil registry, or \<open>Start\<close>'s.\<close>

definition Server_start_registry ::
    "'k kv_ops \<Rightarrow> RegistryMode \<Rightarrow> string \<Rightarrow> string \<Rightarrow> string list \<Rightarrow> int \<Rightarrow> 'k
      \<Rightarrow> ('s, 'a, Register_state \<times> 'k) Server \<Rightarrow> ('s, 'a, Register_state \<times> 'k) Server option" where
  "Server_start_registry ops mode base addr stores interval k s =
     (case NewRegistry mode base addr stores interval of
        None \<Rightarrow> None
      | Some p \<Rightarrow>
          (case Registry_Start ops p k of
             None \<Rightarrow> None
           | Some (_, p, k) \<Rightarrow> Some (Server_Registry (p, k) addr s)))"

text \<open>\<open>Register\<close> of the registry as the server calls it, its error dropped.\<close>

definition registry_Register ::
    "'k kv_ops \<Rightarrow> Register_state \<times> 'k \<Rightarrow> string \<Rightarrow> string \<Rightarrow> Register_state \<times> 'k" where
  "registry_Register ops g name meta = snd (Registry_Register ops name meta (fst g) (snd g))"

text \<open>\<open>Discovery\<close> of the client; the result has the channel of the watch.  \<open>None\<close> is a panic.\<close>

definition Client_Discovery ::
    "'k kv_ops \<Rightarrow> RegistryMode \<Rightarrow> string \<Rightarrow> string \<Rightarrow> string list \<Rightarrow> 'k \<Rightarrow> xclient
      \<Rightarrow> (xclient \<times> nat \<times> Discovery_state) option" where
  "Client_Discovery ops mode base path stores k c =
     (case NewDiscovery ops mode base path stores k of
        None \<Rightarrow> None
      | Some None \<Rightarrow> None
      | Some (Some d) \<Rightarrow>
          let pairs = GetServices d; (ch, d) = WatchService d
          in Some (Discovery path pairs True c, ch, d))"

section \<open>A registered server is found\<close>

definition kind_of :: "RegistryMode \<Rightarrow> store_kind" where
  "kind_of mode = (if mode = Mode_Consul then CONSUL else ETCD)"

lemma RegisterWithMeta_registry:
  assumes "RegisterWithMeta lib reg r name meta s = Some (err, s')"
  shows "sv_registry s' = map_option (\<lambda>g. reg g name meta) (sv_registry s)"
  using assms
  by (auto simp: RegisterWithMeta_def register_def Let_def split: option.splits if_splits)

lemma Client_Discovery_pairs:
  assumes "Client_Discovery ops mode base path stores k c = Some (c', ch, d')"
  obtains d where "NewDiscoveryOption ops (kind_of mode) base path stores k = Some d"
    and "c' = Discovery path (GetServices d) True c"
  using assms that
  by (auto simp: Client_Discovery_def NewDiscovery_def kind_of_def Mode_Etcd_def Mode_Consul_def Let_def WatchService_def
      split: option.splits if_splits)

lemma NewRegistry_kind:
  "NewRegistry mode base addr stores interval = Some p \<Longrightarrow> p = new_register (kind_of mode) base addr stores interval"
  by (auto simp: NewRegistry_def NewEtcdRegistry_def NewConsulRegistry_def kind_of_def Mode_Etcd_def Mode_Consul_def split: if_splits)

lemma set_Selector_addresses:
  assumes "set_Selector env smode c = Some c'" and "servers c = Some m"
  shows "addresses c' = map fst m"
  using assms NewSelector_addrs by (auto simp: set_Selector_def addresses_def)



definition sample_registered :: "Register_state \<times> strmap" where
  "sample_registered =
     ((new_register ETCD ''/frpc'' ''tcp@a:1'' [] 60)
        \<lparr>rg_Services := [''Arith''], rg_metas := Some [(''Arith'', ''weight=4'')], rg_store := True, rg_ticking := True\<rparr>,
      [(''/frpc/Arith/tcp@a:1'', ''weight=4'')])"


end
