(* ===== verification/Circuit_Window.thy ===== *)
theory Circuit_Window
  imports Breaker Float64
begin

text \<open>
  The vendored \<open>circuitbreaker/window.go\<close>: a ring of buckets that counts recent failures and
  successes.  The ring is the list of its buckets from the current one on.  Counters are integers:
  an \<open>int64\<close> is not exhausted by counting calls.
\<close>

section \<open>The window\<close>

record cbucket =
  failure :: int
  success :: int

definition bucket_Reset :: "cbucket \<Rightarrow> cbucket" where
  "bucket_Reset b = b\<lparr>failure := 0, success := 0\<rparr>"

definition bucket_Fail :: "cbucket \<Rightarrow> cbucket" where
  "bucket_Fail b = b\<lparr>failure := failure b + 1\<rparr>"

definition bucket_Success :: "cbucket \<Rightarrow> cbucket" where
  "bucket_Success b = b\<lparr>success := success b + 1\<rparr>"

record cwindow =
  buckets :: "cbucket list"
  bucketTime :: int
  lastAccess :: int

definition newWindow :: "int \<Rightarrow> nat \<Rightarrow> int \<Rightarrow> cwindow" where
  "newWindow windowTime windowBuckets now =
     \<lparr>buckets = replicate windowBuckets \<lparr>failure = 0, success = 0\<rparr>,
      bucketTime = windowTime div int windowBuckets, lastAccess = now\<rparr>"

definition on_current :: "('a \<Rightarrow> 'a) \<Rightarrow> 'a list \<Rightarrow> 'a list" where
  "on_current f bs = (case bs of [] \<Rightarrow> [] | b # bs \<Rightarrow> f b # bs)"

text \<open>The loop of \<open>getLatestBucket\<close>: at most as many turns as there are buckets.\<close>

fun advance :: "nat \<Rightarrow> int \<Rightarrow> int \<Rightarrow> cbucket list \<Rightarrow> cbucket list" where
  "advance 0 elapsed bt bs = bs"
| "advance (Suc i) elapsed bt bs =
     (let bs = on_current bucket_Reset (rotate1 bs); elapsed = elapsed - bt
      in if elapsed < bt then bs else advance i elapsed bt bs)"

text \<open>\<open>now\<close> and \<open>acc\<close> are its two readings of the clock.\<close>

definition getLatestBucket :: "int \<Rightarrow> int \<Rightarrow> cwindow \<Rightarrow> cwindow" where
  "getLatestBucket now acc w =
     (let elapsed = time_Sub now (lastAccess w)
      in if elapsed > bucketTime w
         then w\<lparr>buckets := advance (length (buckets w)) elapsed (bucketTime w) (buckets w), lastAccess := acc\<rparr>
         else w)"

definition window_Fail :: "int \<Rightarrow> int \<Rightarrow> cwindow \<Rightarrow> cwindow" where
  "window_Fail now acc w =
     (let w = getLatestBucket now acc w in w\<lparr>buckets := on_current bucket_Fail (buckets w)\<rparr>)"

definition window_Success :: "int \<Rightarrow> int \<Rightarrow> cwindow \<Rightarrow> cwindow" where
  "window_Success now acc w =
     (let w = getLatestBucket now acc w in w\<lparr>buckets := on_current bucket_Success (buckets w)\<rparr>)"

definition Failures :: "cwindow \<Rightarrow> int" where
  "Failures w = sum_list (map failure (buckets w))"

definition Successes :: "cwindow \<Rightarrow> int" where
  "Successes w = sum_list (map success (buckets w))"

text \<open>A positive fraction below 1 is rounded after scaling it by a power of two, which is exact.\<close>

definition float64_frac :: "rat \<Rightarrow> rat" where
  "float64_frac x =
     (if x = 0 then 0 else if 1 \<le> x then float64 x
      else let k = exponent (1 / x) in float64 (x * 2 ^ k) / 2 ^ k)"

definition ErrorRate :: "cwindow \<Rightarrow> rat" where
  "ErrorRate w =
     (let total = sum_list (map (\<lambda>b. failure b + success b) (buckets w)); fails = Failures w
      in if total = 0 then 0
         else float64_frac (float64_frac (of_int fails) / float64_frac (of_int total)))"

definition window_Reset :: "cwindow \<Rightarrow> cwindow" where
  "window_Reset w = w\<lparr>buckets := map bucket_Reset (buckets w)\<rparr>"

section \<open>Counting by a log\<close>

text \<open>
  The reference: a log of all events since the last reset, each with the number of the period it fell
  into.  A new period begins with the first event more than a bucket's time after the last period's
  first one; it is as many periods later as bucket times have passed, but at most all of them.
\<close>

datatype window_op = Op_Fail int int | Op_Success int int | Op_Reset

record wlog =
  period :: int
  begun :: int
  events :: "(int \<times> bool) list"

definition new_periods :: "nat \<Rightarrow> int \<Rightarrow> int \<Rightarrow> int" where
  "new_periods n elapsed bt = (if elapsed > bt then min (int n) (elapsed div bt) else 0)"

definition log_event :: "nat \<Rightarrow> int \<Rightarrow> bool \<Rightarrow> int \<Rightarrow> int \<Rightarrow> wlog \<Rightarrow> wlog" where
  "log_event n bt ok now acc l =
     (let elapsed = time_Sub now (begun l); p = period l + new_periods n elapsed bt
      in \<lparr>period = p, begun = if elapsed > bt then acc else begun l, events = (p, ok) # events l\<rparr>)"

fun log_step :: "nat \<Rightarrow> int \<Rightarrow> window_op \<Rightarrow> wlog \<Rightarrow> wlog" where
  "log_step n bt (Op_Fail now acc) l = log_event n bt False now acc l"
| "log_step n bt (Op_Success now acc) l = log_event n bt True now acc l"
| "log_step n bt Op_Reset l = l\<lparr>events := []\<rparr>"

fun window_step :: "window_op \<Rightarrow> cwindow \<Rightarrow> cwindow" where
  "window_step (Op_Fail now acc) w = window_Fail now acc w"
| "window_step (Op_Success now acc) w = window_Success now acc w"
| "window_step Op_Reset w = window_Reset w"

text \<open>The events of the last \<open>n\<close> periods.\<close>

definition recent :: "nat \<Rightarrow> bool \<Rightarrow> wlog \<Rightarrow> int" where
  "recent n ok l = int (length [e \<leftarrow> events l. snd e = ok \<and> fst e > period l - int n])"

text \<open>The bucket of one period, and the ring of the last \<open>n\<close> periods.\<close>

definition counted :: "(int \<times> bool) list \<Rightarrow> int \<Rightarrow> cbucket" where
  "counted es p =
     \<lparr>failure = int (length [e \<leftarrow> es. e = (p, False)]), success = int (length [e \<leftarrow> es. e = (p, True)])\<rparr>"

definition ring_of :: "nat \<Rightarrow> int \<Rightarrow> (int \<times> bool) list \<Rightarrow> cbucket list" where
  "ring_of n p es = counted es p # map (counted es) [p - int n + 1..p - 1]"

definition shows_log :: "nat \<Rightarrow> cwindow \<Rightarrow> wlog \<Rightarrow> bool" where
  "shows_log n w l \<longleftrightarrow> buckets w = ring_of n (period l) (events l) \<and> lastAccess w = begun l \<and>
     (\<forall>e \<in> set (events l). fst e \<le> period l)"

lemma length_ring_of: "0 < n \<Longrightarrow> length (ring_of n p es) = n"
  by (simp add: ring_of_def)

lemma counted_later: "\<forall>e \<in> set es. fst e < p \<Longrightarrow> counted es p = \<lparr>failure = 0, success = 0\<rparr>"
  by (auto simp: counted_def filter_empty_conv)

lemma bucket_Reset_counted: "bucket_Reset b = \<lparr>failure = 0, success = 0, \<dots> = cbucket.more b\<rparr>"
  by (cases b) (simp add: bucket_Reset_def)

lemma ring_turn:
  assumes "0 < n" and "\<forall>e \<in> set es. fst e \<le> p"
  shows "on_current bucket_Reset (rotate1 (ring_of n p es)) = ring_of n (p + 1) es"
proof -
  have fresh: "counted es (p + 1) = \<lparr>failure = 0, success = 0\<rparr>" using assms(2) by (intro counted_later) auto
  show ?thesis
  proof (cases "n = 1")
    case True
    then show ?thesis by (simp add: ring_of_def on_current_def bucket_Reset_counted fresh)
  next
    case False
    then have first: "[p - int n + 1..p - 1] = (p - int n + 1) # [p - int n + 2..p - 1]"
      using assms(1) by (subst upto.simps) (simp add: algebra_simps)
    have "[p - int n + 2..p] = [p - int n + 2..p - 1] @ [p]"
      using assms(1) False by (intro upto_rec2) simp
    then have "ring_of n (p + 1) es =
        counted es (p + 1) # map (counted es) [p - int n + 2..p - 1] @ [counted es p]"
      by (simp add: ring_of_def algebra_simps)
    then show ?thesis
      by (simp add: ring_of_def [of n p] first on_current_def bucket_Reset_counted fresh)
  qed
qed


text \<open>The loop goes on as many periods as the log counts.\<close>

lemma advance_periods:
  assumes "0 < n" and "0 < bt" and "bt \<le> elapsed" and "\<forall>e \<in> set es. fst e \<le> p"
  shows "advance i elapsed bt (ring_of n p es) = ring_of n (p + min (int i) (elapsed div bt)) es"
  using assms(3,4)
proof (induction i arbitrary: elapsed p)
  case 0
  then show ?case using assms(2) by (simp add: pos_imp_zdiv_nonneg_iff min_absorb1)
next
  case (Suc i)
  note turn = ring_turn [OF assms(1) Suc.prems(2)]
  have less: "elapsed div bt = (elapsed - bt) div bt + 1"
    using assms(2) div_add_self2 [of bt "elapsed - bt"] by simp
  show ?case
  proof (cases "elapsed - bt < bt")
    case True
    then have "elapsed div bt = 1" using less Suc.prems(1) by (simp add: div_pos_pos_trivial)
    then show ?thesis using True turn by (simp add: Let_def)
  next
    case False
    have "advance i (elapsed - bt) bt (ring_of n (p + 1) es) =
        ring_of n (p + 1 + min (int i) ((elapsed - bt) div bt)) es"
      using False Suc.prems by (intro Suc.IH) auto
    then show ?thesis using False turn less by (simp add: Let_def min_def algebra_simps)
  qed
qed


lemma getLatestBucket_shows:
  assumes "shows_log n w l" and "0 < n" and "0 < bucketTime w"
  shows "shows_log n (getLatestBucket now acc w)
    (l\<lparr>period := period l + new_periods n (time_Sub now (begun l)) (bucketTime w),
       begun := if time_Sub now (begun l) > bucketTime w then acc else begun l\<rparr>)"
proof -
  have l: "buckets w = ring_of n (period l) (events l)" "lastAccess w = begun l" "\<forall>e \<in> set (events l). fst e \<le> period l"
    using assms(1) by (simp_all add: shows_log_def)
  have "0 \<le> elapsed div bucketTime w" if "elapsed > bucketTime w" for elapsed
    using that assms(3) by (simp add: pos_imp_zdiv_nonneg_iff)
  then have later: "0 \<le> new_periods n elapsed (bucketTime w)" for elapsed by (simp add: new_periods_def)
  have "advance n elapsed (bucketTime w) (buckets w) = ring_of n (period l + new_periods n elapsed (bucketTime w)) (events l)"
    if "elapsed > bucketTime w" for elapsed
    using that l(1) advance_periods [OF assms(2,3) _ l(3), of elapsed n] by (simp add: new_periods_def)
  then have adv: "advance n elapsed (bucketTime w) (ring_of n (period l) (events l)) =
      ring_of n (period l + new_periods n elapsed (bucketTime w)) (events l)" if "elapsed > bucketTime w" for elapsed
    using that l(1) by simp
  have "fst e \<le> period l + new_periods n (time_Sub now (begun l)) (bucketTime w)" if "e \<in> set (events l)" for e
    using l(3) later [of "time_Sub now (begun l)"] that by fastforce
  then show ?thesis
  proof (cases "time_Sub now (begun l) > bucketTime w")
    case False
    then show ?thesis using l by (simp add: shows_log_def getLatestBucket_def new_periods_def)
  qed (simp add: shows_log_def getLatestBucket_def l(1,2) length_ring_of [OF assms(2)] adv Let_def)
qed

lemma ring_event:
  assumes "0 < n" and "\<forall>e \<in> set es. fst e \<le> p"
  shows "on_current bucket_Fail (ring_of n p es) = ring_of n p ((p, False) # es)"
    and "on_current bucket_Success (ring_of n p es) = ring_of n p ((p, True) # es)"
  by (simp_all add: ring_of_def on_current_def bucket_Fail_def bucket_Success_def counted_def)

lemma ring_reset: "map bucket_Reset (ring_of n p es) = ring_of n p []"
  by (simp add: ring_of_def bucket_Reset_def counted_def)

lemma bucketTime_step [simp]: "bucketTime (window_step op w) = bucketTime w"
  by (cases op) (simp_all add: window_Fail_def window_Success_def window_Reset_def getLatestBucket_def Let_def)

lemma window_step_shows:
  assumes "shows_log n w l" and "0 < n" and "0 < bucketTime w"
  shows "shows_log n (window_step op w) (log_step n (bucketTime w) op l)"
proof (cases op)
  case (Op_Fail now acc)
  note shown = getLatestBucket_shows [OF assms, of now acc]
  then show ?thesis using Op_Fail ring_event(1) [OF assms(2)]
    by (simp add: shows_log_def window_Fail_def log_event_def Let_def)
next
  case (Op_Success now acc)
  note shown = getLatestBucket_shows [OF assms, of now acc]
  then show ?thesis using Op_Success ring_event(2) [OF assms(2)]
    by (simp add: shows_log_def window_Success_def log_event_def Let_def)
next
  case Op_Reset
  then show ?thesis using assms(1) by (simp add: shows_log_def window_Reset_def ring_reset)
qed

lemma window_steps_shows:
  assumes "shows_log n w l" and "0 < n" and "0 < bucketTime w"
  shows "shows_log n (fold window_step ops w) (fold (log_step n (bucketTime w)) ops l)"
  using assms
proof (induction ops arbitrary: w l)
  case (Cons op ops)
  from Cons.IH [OF window_step_shows [OF Cons.prems, of op]] Cons.prems show ?case by simp
qed simp


lemma sum_counted:
  "sum_list (map (\<lambda>p. int (length [e \<leftarrow> es. e = (p, ok)])) [lo..hi]) =
     int (length [e \<leftarrow> es. snd e = ok \<and> lo \<le> fst e \<and> fst e \<le> hi])"
proof (induction es)
  case (Cons e es)
  have "sum_list (map (\<lambda>p. if e = (p, ok) then 1 else 0) [lo..hi]) =
      (if snd e = ok \<and> lo \<le> fst e \<and> fst e \<le> hi then 1 else (0 :: int))"
    by (cases e) (auto simp: sum_list_distinct_conv_sum_set)
  moreover have "int (length [e' \<leftarrow> e # es. e' = (p, ok)]) =
      (if e = (p, ok) then 1 else 0) + int (length [e' \<leftarrow> es. e' = (p, ok)])" for p
    by simp
  ultimately show ?case using Cons.IH by (simp add: sum_list_addf)
qed simp

lemma shows_log_totals:
  assumes "shows_log n w l" and "0 < n"
  shows "Failures w = recent n False l" and "Successes w = recent n True l"
proof -
  let ?p = "period l" and ?es = "events l"
  have upto: "[?p - int n + 1..?p] = [?p - int n + 1..?p - 1] @ [?p]"
    using assms(2) by (intro upto_rec2) simp
  have "fst e \<le> ?p" if "e \<in> set ?es" for e using assms(1) that by (simp add: shows_log_def)
  then have recent: "recent n ok l = int (length [e \<leftarrow> ?es. snd e = ok \<and> ?p - int n + 1 \<le> fst e \<and> fst e \<le> ?p])" for ok
    unfolding recent_def by (intro arg_cong [where f = int] arg_cong [where f = length] filter_cong) auto
  show "Failures w = recent n False l" "Successes w = recent n True l"
    unfolding recent sum_counted [symmetric] Failures_def Successes_def
    using assms(1) by (simp_all add: shows_log_def ring_of_def counted_def upto comp_def)
qed

text \<open>C21: The ring counts what a log of all events would.  Over any sequence of failures, successes and
  resets, at any times, the totals of the ring are the numbers of failures and of successes that the
  log has since the last reset in the last as many periods as there are buckets.\<close>

theorem window_counts:
  assumes "0 < n" and "int n \<le> windowTime"
    and "w = fold window_step ops (newWindow windowTime n now)"
    and "l = fold (log_step n (windowTime div int n)) ops \<lparr>period = 0, begun = now, events = []\<rparr>"
  shows "Failures w = recent n False l \<and> Successes w = recent n True l"
proof -
  have "ring_of n 0 [] = replicate n (\<lparr>failure = 0, success = 0\<rparr> :: cbucket)"
    using assms(1) length_ring_of [OF assms(1), of 0 "[]"]
    by (intro replicate_eqI) (auto simp: ring_of_def counted_def)
  then have "shows_log n (newWindow windowTime n now) \<lparr>period = 0, begun = now, events = []\<rparr>"
    by (simp add: shows_log_def newWindow_def)
  moreover have "0 < windowTime div int n" using assms(1,2) by (simp add: pos_imp_zdiv_pos_iff)
  ultimately have "shows_log n w l"
    using window_steps_shows [of n "newWindow windowTime n now" _ ops] assms by (simp add: newWindow_def)
  then show ?thesis using shows_log_totals assms(1) by blast
qed

theorem window_counts_witness:
  "Failures (fold window_step [Op_Fail 1 1, Op_Success 2 2, Op_Fail 16 16, Op_Fail 70 70, Op_Success 85 86]
     (newWindow 50 5 0)) = 1"
proof -
  let ?ops = "[Op_Fail 1 1, Op_Success 2 2, Op_Fail 16 16, Op_Fail 70 70, Op_Success 85 86]"
  have "recent 5 False (fold (log_step 5 (50 div int 5)) ?ops \<lparr>period = 0, begun = 0, events = []\<rparr>) = 1"
    by code_simp
  then show ?thesis
    using window_counts [of 5 50 "fold window_step ?ops (newWindow 50 5 0)" ?ops 0, OF _ _ refl refl] by simp
qed

end
