(* ===== verification/Circuit.thy ===== *)
theory Circuit
  imports Circuit_Window Client_Pool
begin

text \<open>
  The breakers of \<open>src/circuit\<close> that wrap the vendored \<open>circuitbreaker\<close>: rate, threshold and
  consecutive failures, with the vendored exponential back-off.  frpc neither subscribes to the
  events of a breaker nor calls \<open>Break\<close>, \<open>Trip\<close> or \<open>Reset\<close> itself.
\<close>

section \<open>The back-off\<close>

definition DefaultInitialInterval :: int where "DefaultInitialInterval = 500000000"
definition DefaultMaxInterval :: int where "DefaultMaxInterval = 60000000000"
definition DefaultMultiplier :: rat where "DefaultMultiplier = 3 / 2"
definition DefaultRandomizationFactor :: rat where "DefaultRandomizationFactor = 1 / 2"

definition incrementCurrentInterval :: "int \<Rightarrow> int" where
  "incrementCurrentInterval cur =
     (if float64_frac (of_int cur) \<ge> float64_frac (float64_frac (of_int DefaultMaxInterval) / DefaultMultiplier)
      then DefaultMaxInterval
      else \<lfloor>float64_frac (float64_frac (of_int cur) * DefaultMultiplier)\<rfloor>)"

text \<open>\<open>rnd\<close> is what \<open>random.Float64()\<close> returns.\<close>

definition getRandomValueFromInterval :: "rat \<Rightarrow> rat \<Rightarrow> int \<Rightarrow> int" where
  "getRandomValueFromInterval factor rnd cur =
     (let delta = float64_frac (factor * float64_frac (of_int cur));
          minInterval = float64_frac (float64_frac (of_int cur) - delta);
          maxInterval = float64_frac (float64_frac (of_int cur) + delta)
      in \<lfloor>float64_frac (minInterval + float64_frac (rnd * float64_frac (float64_frac (maxInterval - minInterval) + 1)))\<rfloor>)"

text \<open>\<open>NextBackOff\<close> of a back-off without a maximal elapsed time: the interval, and the new current one.\<close>

definition NextBackOff :: "rat \<Rightarrow> int \<Rightarrow> int \<times> int" where
  "NextBackOff rnd cur =
     (getRandomValueFromInterval DefaultRandomizationFactor rnd cur, incrementCurrentInterval cur)"

section \<open>The breaker\<close>

datatype TripFunc = ThresholdTripFunc int | ConsecutiveTripFunc int | RateTripFunc rat int

record Circuit_Breaker =
  currentInterval :: int
  ShouldTrip :: TripFunc
  consecFailures :: int
  lastFailure :: int
  halfOpens :: int
  counts :: cwindow
  nextBackOff :: int
  tripped :: bool

text \<open>
  What one call sees: the clock in \<open>Ready\<close>, in the window (twice), in \<open>Fail\<close>, in \<open>Trip\<close> and in the
  \<open>state\<close> of \<open>Success\<close>; the random numbers of the three places that draw one; and whether the timer
  fires first.
\<close>

record circuit_env =
  ce_ready :: int
  ce_window :: int
  ce_access :: int
  ce_fail :: int
  ce_trip :: int
  ce_state :: int
  ce_rnd_ready :: rat
  ce_rnd_success :: rat
  ce_rnd_state :: rat
  ce_timer :: bool

definition DefaultWindowTime :: int where "DefaultWindowTime = 1000000 * 10000"
definition DefaultWindowBuckets :: nat where "DefaultWindowBuckets = 10"

definition NewBreakerWithOptions :: "TripFunc \<Rightarrow> rat \<Rightarrow> int \<Rightarrow> Circuit_Breaker" where
  "NewBreakerWithOptions trip rnd now =
     (let (nb, cur) = NextBackOff rnd DefaultInitialInterval
      in \<lparr>currentInterval = cur, ShouldTrip = trip, consecFailures = 0, lastFailure = 0, halfOpens = 0,
          counts = newWindow DefaultWindowTime DefaultWindowBuckets now, nextBackOff = nb, tripped = False\<rparr>)"

definition NewThresholdBreaker :: "int \<Rightarrow> rat \<Rightarrow> int \<Rightarrow> Circuit_Breaker" where
  "NewThresholdBreaker threshold = NewBreakerWithOptions (ThresholdTripFunc threshold)"

definition NewConsecutiveBreaker :: "int \<Rightarrow> rat \<Rightarrow> int \<Rightarrow> Circuit_Breaker" where
  "NewConsecutiveBreaker threshold = NewBreakerWithOptions (ConsecutiveTripFunc threshold)"

definition NewRateBreaker :: "rat \<Rightarrow> int \<Rightarrow> rat \<Rightarrow> int \<Rightarrow> Circuit_Breaker" where
  "NewRateBreaker rate minSamples = NewBreakerWithOptions (RateTripFunc rate minSamples)"

fun should_trip :: "TripFunc \<Rightarrow> Circuit_Breaker \<Rightarrow> bool" where
  "should_trip (ThresholdTripFunc threshold) cb = (Failures (counts cb) = threshold)"
| "should_trip (ConsecutiveTripFunc threshold) cb = (consecFailures cb = threshold)"
| "should_trip (RateTripFunc rate minSamples) cb =
     (Failures (counts cb) + Successes (counts cb) \<ge> minSamples \<and> ErrorRate (counts cb) \<ge> rate)"

definition Trip :: "int \<Rightarrow> Circuit_Breaker \<Rightarrow> Circuit_Breaker" where
  "Trip now cb = cb\<lparr>tripped := True, lastFailure := now\<rparr>"

definition ResetCounters :: "Circuit_Breaker \<Rightarrow> Circuit_Breaker" where
  "ResetCounters cb = cb\<lparr>consecFailures := 0, counts := window_Reset (counts cb)\<rparr>"

definition circuit_Reset :: "Circuit_Breaker \<Rightarrow> Circuit_Breaker" where
  "circuit_Reset cb = ResetCounters (cb\<lparr>tripped := False, halfOpens := 0\<rparr>)"

definition circuit_Fail :: "circuit_env \<Rightarrow> Circuit_Breaker \<Rightarrow> Circuit_Breaker" where
  "circuit_Fail env cb =
     (let cb = cb\<lparr>counts := window_Fail (ce_window env) (ce_access env) (counts cb),
                  consecFailures := consecFailures cb + 1, lastFailure := ce_fail env\<rparr>
      in if should_trip (ShouldTrip cb) cb then Trip (ce_trip env) cb else cb)"

datatype breaker_state = State_open | State_halfopen | State_closed

definition circuit_state :: "int \<Rightarrow> rat \<Rightarrow> Circuit_Breaker \<Rightarrow> breaker_state \<times> Circuit_Breaker" where
  "circuit_state now rnd cb =
     (if tripped cb then
        if nextBackOff cb \<noteq> - 1 \<and> time_Sub now (lastFailure cb) > nextBackOff cb then
          if halfOpens cb = 0 then
            let (nb, cur) = NextBackOff rnd (currentInterval cb)
            in (State_halfopen, cb\<lparr>halfOpens := 1, nextBackOff := nb, currentInterval := cur\<rparr>)
          else (State_open, cb)
        else (State_open, cb)
      else (State_closed, cb))"

definition circuit_Success :: "circuit_env \<Rightarrow> Circuit_Breaker \<Rightarrow> Circuit_Breaker" where
  "circuit_Success env cb =
     (let (nb, cur) = NextBackOff (ce_rnd_success env) DefaultInitialInterval;
          cb = cb\<lparr>nextBackOff := nb, currentInterval := cur\<rparr>;
          (st, cb) = circuit_state (ce_state env) (ce_rnd_state env) cb;
          cb = (if st = State_halfopen then circuit_Reset cb else cb)
      in cb\<lparr>consecFailures := 0, counts := window_Success (ce_window env) (ce_access env) (counts cb)\<rparr>)"

definition circuit_Ready :: "circuit_env \<Rightarrow> Circuit_Breaker \<Rightarrow> bool \<times> Circuit_Breaker" where
  "circuit_Ready env cb =
     (let (st, cb) = circuit_state (ce_ready env) (ce_rnd_ready env) cb
      in (st = State_closed \<or> st = State_halfopen, if st = State_halfopen then cb\<lparr>halfOpens := 0\<rparr> else cb))"

definition circuit_Call :: "circuit_env \<Rightarrow> 'w protected \<Rightarrow> int \<Rightarrow> Circuit_Breaker \<Rightarrow> 'w \<Rightarrow> go_error option \<times> Circuit_Breaker \<times> 'w" where
  "circuit_Call env fn timeout cb w =
     (let (rdy, cb) = circuit_Ready env cb
      in if \<not> rdy then (Some ErrBreakerOpen, cb, w)
         else
           let (e, w) = fn w;
               err = (if timeout = 0 then e else if ce_timer env then Some ErrBreakerTimeout else e)
           in (case err of
                 Some _ \<Rightarrow> (err, circuit_Fail env cb, w)
               | None \<Rightarrow> (None, circuit_Success env cb, w)))"

text \<open>The wrappers of \<open>src/circuit\<close>.\<close>

definition RateBreaker_Call :: "circuit_env \<Rightarrow> 'w protected \<Rightarrow> int \<Rightarrow> Circuit_Breaker \<Rightarrow> 'w \<Rightarrow> go_error option \<times> Circuit_Breaker \<times> 'w" where
  "RateBreaker_Call env fn d cb w = circuit_Call env fn d cb w"

definition ThresholdBreaker_Call :: "circuit_env \<Rightarrow> 'w protected \<Rightarrow> int \<Rightarrow> Circuit_Breaker \<Rightarrow> 'w \<Rightarrow> go_error option \<times> Circuit_Breaker \<times> 'w" where
  "ThresholdBreaker_Call env fn d cb w = circuit_Call env fn d cb w"

definition ConsecutiveBreaker_Call :: "circuit_env \<Rightarrow> 'w protected \<Rightarrow> int \<Rightarrow> Circuit_Breaker \<Rightarrow> 'w \<Rightarrow> go_error option \<times> Circuit_Breaker \<times> 'w" where
  "ConsecutiveBreaker_Call env fn d cb w = circuit_Call env fn d cb w"

section \<open>It is a breaker\<close>

definition circuit_open :: "circuit_env \<Rightarrow> Circuit_Breaker \<Rightarrow> bool" where
  "circuit_open env cb \<longleftrightarrow> fst (circuit_state (ce_ready env) (ce_rnd_ready env) cb) = State_open"

lemma circuit_state_open: "fst (circuit_state now rnd cb) = State_open \<Longrightarrow> circuit_state now rnd cb = (State_open, cb)"
  by (auto simp: circuit_state_def Let_def split: if_splits prod.splits)

lemma circuit_Ready_iff: "fst (circuit_Ready env cb) \<longleftrightarrow> \<not> circuit_open env cb"
  by (cases "circuit_state (ce_ready env) (ce_rnd_ready env) cb"; cases "fst (circuit_state (ce_ready env) (ce_rnd_ready env) cb)")
    (auto simp: circuit_Ready_def circuit_open_def)

lemma circuit_Ready_open: "circuit_open env cb \<Longrightarrow> circuit_Ready env cb = (False, cb)"
  by (auto simp: circuit_Ready_def circuit_open_def dest!: circuit_state_open)

lemma circuit_Call_runs:
  assumes "\<not> circuit_open env cb" and "circuit_Ready env cb = (rdy, cb1)"
  shows "circuit_Call env fn timeout cb w =
    (let err = (if timeout \<noteq> 0 \<and> ce_timer env then Some ErrBreakerTimeout else fst (fn w))
     in (err, if err = None then circuit_Success env cb1 else circuit_Fail env cb1, snd (fn w)))"
  using assms circuit_Ready_iff [of env cb]
  by (cases "fn w") (auto simp: circuit_Call_def Let_def split: option.splits)

interpretation circuit: breaker circuit_Call circuit_open ce_timer
proof (unfold_locales, goal_cases)
  case (1 env b fn d w)
  then show ?case by (simp add: circuit_Call_def circuit_Ready_open)
next
  case (2 env b fn d w err b' w')
  then show ?case by (cases "circuit_Ready env b") (auto simp: circuit_Call_runs Let_def)
qed


section \<open>The back-off is bounded\<close>

lemma float64_frac_ge1 [simp]: "1 \<le> x \<Longrightarrow> float64_frac x = float64 x"
  by (auto simp: float64_frac_def)

lemma float64_frac_int:
  assumes "1 \<le> n" and "n \<le> 2 ^ 53"
  shows "float64_frac (of_int n) = of_int n"
  using assms by (simp add: float64_int)

text \<open>Halves of integers up to this size are exact.\<close>

lemma float64_half:
  assumes "2 \<le> n" and "n < 2 ^ 52"
  shows "float64 (of_int n / 2) = of_int n / 2"
proof (rule float64_exact)
  let ?x = "of_int n / 2 :: rat"
  have n: "(of_int n :: rat) < of_int (2 ^ 52)" "(of_int n :: rat) \<ge> of_int 2"
    using assms by (simp_all only: of_int_less_iff of_int_le_iff)
  then have x: "1 \<le> ?x" "?x < 2 ^ 51" by simp_all
  have "(2 :: rat) ^ (exponent ?x - 1) < 2 ^ 51" using exponent_bounds(1) [OF x(1)] x(2) by linarith
  then have "exponent ?x - 1 < 51" by (rule power_less_imp_less_exp [rotated]) simp
  then have e: "exponent ?x \<le> 52" by simp
  have "of_int (n * 2 ^ (52 - exponent ?x)) * unit_in_last_place ?x = of_int n * (2 ^ (52 - exponent ?x) * 2 ^ exponent ?x) / 2 ^ 53"
    by (simp add: unit_in_last_place_def)
  also have "2 ^ (52 - exponent ?x) * 2 ^ exponent ?x = (2 :: rat) ^ 52"
    using e by (simp flip: power_add)
  finally show "?x = of_int (n * 2 ^ (52 - exponent ?x)) * unit_in_last_place ?x" by simp
qed

lemma float64_frac_half:
  assumes "2 \<le> n" and "n < 2 ^ 52"
  shows "float64_frac (of_int n / 2) = of_int n / 2"
proof -
  have "(of_int 2 :: rat) \<le> of_int n" using assms(1) by (simp only: of_int_le_iff)
  then show ?thesis using float64_half [OF assms] by simp
qed

lemma float64_frac_le:
  assumes "0 \<le> x" and "x \<le> of_int n" and "1 \<le> n" and "n \<le> 2 ^ 53"
  shows "0 \<le> float64_frac x \<and> float64_frac x \<le> of_int n"
proof (cases "1 \<le> x")
  case True
  then show ?thesis
    using rn53.fl_mono [OF True assms(2)] rn53.fl_int [OF assms(3,4)] rn53.fl_ge_int [of 1 x] by simp
next
  case False
  let ?k = "exponent (1 / x)"
  show ?thesis
  proof (cases "x = 0")
    case True
    then show ?thesis using assms(3) by (simp add: float64_frac_def)
  next
    case nonzero: False
    then have pos: "0 < x" "1 \<le> 1 / x" using assms(1) False by simp_all
    have "1 / x < 2 ^ ?k" by (rule exponent_bounds(2) [OF pos(2)])
    then have one: "1 \<le> x * 2 ^ ?k" using pos(1) by (simp add: field_simps)
    moreover have "x * 2 ^ ?k \<le> 2 ^ ?k" using False by (simp add: mult_le_cancel_right1)
    ultimately have "1 \<le> float64 (x * 2 ^ ?k)" "float64 (x * 2 ^ ?k) \<le> 2 ^ ?k"
      using rn53.fl_le_pow2 [OF one, of ?k] rn53.fl_ge_int [of 1 "x * 2 ^ ?k"] by simp_all
    then have "0 \<le> float64_frac x" "float64_frac x \<le> 1"
      using False nonzero by (simp_all add: float64_frac_def Let_def field_simps)
    moreover have "(1 :: rat) \<le> of_int n" using assms(3) by simp
    ultimately show ?thesis by linarith
  qed
qed


lemma incrementCurrentInterval_eq:
  assumes "DefaultInitialInterval \<le> cur" and "cur \<le> DefaultMaxInterval"
  shows "incrementCurrentInterval cur = (if cur \<ge> 40000000000 then 60000000000 else (3 * cur) div 2)"
proof -
  have cur: "5 * 10 ^ 8 \<le> cur" "cur \<le> 6 * 10 ^ 10"
    using assms by (simp_all add: DefaultInitialInterval_def DefaultMaxInterval_def)
  have c: "float64_frac (of_int cur) = of_int cur" using cur by (intro float64_frac_int) simp_all
  have q: "float64_frac (of_int DefaultMaxInterval) / DefaultMultiplier = of_int 40000000000"
    using float64_frac_int [of 60000000000] by (simp add: DefaultMaxInterval_def DefaultMultiplier_def)
  have f: "float64_frac (of_int 40000000000) = of_int 40000000000" by (rule float64_frac_int) simp_all
  have m: "float64_frac (of_int cur * DefaultMultiplier) = of_int (3 * cur) / 2"
    using cur float64_frac_half [of "3 * cur"] by (simp add: DefaultMultiplier_def mult.commute)
  have inc: "incrementCurrentInterval cur = (if cur \<ge> 40000000000 then 60000000000 else \<lfloor>of_int (3 * cur) / (2 :: rat)\<rfloor>)"
    unfolding incrementCurrentInterval_def c q f m of_int_le_iff by (simp add: DefaultMaxInterval_def)
  have "\<lfloor>of_int (3 * cur) / (2 :: rat)\<rfloor> = (3 * cur) div 2"
    using floor_divide_of_int_eq [where 'a = rat, of "3 * cur" 2] by simp
  with inc show ?thesis by simp
qed

lemma incrementCurrentInterval_bounds:
  assumes "DefaultInitialInterval \<le> cur" and "cur \<le> DefaultMaxInterval"
  shows "DefaultInitialInterval \<le> incrementCurrentInterval cur" and "incrementCurrentInterval cur \<le> DefaultMaxInterval"
  using assms incrementCurrentInterval_eq [OF assms]
  by (auto simp: DefaultInitialInterval_def DefaultMaxInterval_def)

lemma getRandomValue_eq:
  assumes "2 \<le> cur" and "cur \<le> 2 ^ 50"
  shows "getRandomValueFromInterval (1 / 2) rnd cur =
    \<lfloor>float64_frac (of_int cur / 2 + float64_frac (rnd * (of_int cur + 1)))\<rfloor>"
proof -
  let ?c = "of_int cur :: rat"
  have c: "float64_frac ?c = ?c" using assms by (intro float64_frac_int) simp_all
  have half: "float64_frac (?c / 2) = ?c / 2" using assms by (intro float64_frac_half) simp_all
  have mx: "float64_frac (?c + ?c / 2) = ?c + ?c / 2"
    using float64_frac_half [of "3 * cur"] assms by (simp add: field_simps)
  have one: "float64_frac (?c + 1) = ?c + 1" using float64_frac_int [of "cur + 1"] assms by simp
  have sums: "1 / 2 * ?c = ?c / 2" "?c - ?c / 2 = ?c / 2" "?c + ?c / 2 - ?c / 2 = ?c" by simp_all
  show ?thesis
    unfolding getRandomValueFromInterval_def Let_def c sums(1) half sums(2) half mx sums(3) c one ..
qed

lemma getRandomValue_bounds:
  assumes "2 \<le> cur" and "cur \<le> 2 ^ 50" and "0 \<le> rnd" and "rnd \<le> 1"
  shows "cur div 2 \<le> getRandomValueFromInterval (1 / 2) rnd cur"
    and "getRandomValueFromInterval (1 / 2) rnd cur \<le> (3 * cur + 2) div 2"
proof -
  let ?c = "of_int cur :: rat"
  note val = getRandomValue_eq [OF assms(1,2), of rnd]
  have half: "float64_frac (?c / 2) = ?c / 2" using assms by (intro float64_frac_half) simp_all
  have "rnd * (?c + 1) \<le> 1 * (?c + 1)" using assms by (intro mult_right_mono) simp_all
  then have step: "0 \<le> float64_frac (rnd * (?c + 1))" "float64_frac (rnd * (?c + 1)) \<le> ?c + 1"
    using float64_frac_le [of "rnd * (?c + 1)" "cur + 1"] assms by simp_all
  have two: "2 \<le> ?c" using assms(1) by simp
  have ge: "1 \<le> ?c / 2" "1 \<le> ?c / 2 + float64_frac (rnd * (?c + 1))" using step(1) two by linarith+
  have "?c / 2 \<le> float64_frac (?c / 2 + float64_frac (rnd * (?c + 1)))"
    using rn53.fl_mono [of "?c / 2" "?c / 2 + float64_frac (rnd * (?c + 1))"] ge step(1) half by simp
  then have "\<lfloor>?c / 2\<rfloor> \<le> getRandomValueFromInterval (1 / 2) rnd cur" unfolding val by (rule floor_mono)
  then show "cur div 2 \<le> getRandomValueFromInterval (1 / 2) rnd cur"
    using floor_divide_of_int_eq [where 'a = rat, of cur 2] by simp
  have top: "float64_frac (of_int (3 * cur + 2) / 2) = of_int (3 * cur + 2) / 2"
    using assms by (intro float64_frac_half) simp_all
  have "?c / 2 + float64_frac (rnd * (?c + 1)) \<le> of_int (3 * cur + 2) / 2" using step(2) by (simp add: field_simps)
  from rn53.fl_mono [OF ge(2) this]
  have "float64_frac (?c / 2 + float64_frac (rnd * (?c + 1))) \<le> of_int (3 * cur + 2) / 2"
    using ge(2) top \<open>?c / 2 + float64_frac (rnd * (?c + 1)) \<le> of_int (3 * cur + 2) / 2\<close> by simp
  then have "getRandomValueFromInterval (1 / 2) rnd cur \<le> \<lfloor>of_int (3 * cur + 2) / (2 :: rat)\<rfloor>"
    unfolding val by (rule floor_mono)
  then show "getRandomValueFromInterval (1 / 2) rnd cur \<le> (3 * cur + 2) div 2"
    using floor_divide_of_int_eq [where 'a = rat, of "3 * cur + 2" 2] by simp
qed


section \<open>An invariant of the breaker\<close>

definition longest_backoff :: int where "longest_backoff = 90000000001"

definition circuit_inv :: "Circuit_Breaker \<Rightarrow> bool" where
  "circuit_inv cb \<longleftrightarrow> DefaultInitialInterval \<le> currentInterval cb \<and> currentInterval cb \<le> DefaultMaxInterval \<and>
     0 \<le> nextBackOff cb \<and> nextBackOff cb \<le> longest_backoff \<and> halfOpens cb = 0"

definition env_ok :: "circuit_env \<Rightarrow> bool" where
  "env_ok env \<longleftrightarrow> (\<forall>r \<in> {ce_rnd_ready env, ce_rnd_success env, ce_rnd_state env}. 0 \<le> r \<and> r \<le> 1)"

lemma NextBackOff_bounds:
  assumes "NextBackOff rnd cur = (nb, cur')" and "0 \<le> rnd" and "rnd \<le> 1"
    and "DefaultInitialInterval \<le> cur" and "cur \<le> DefaultMaxInterval"
  shows "DefaultInitialInterval \<le> cur' \<and> cur' \<le> DefaultMaxInterval \<and> 0 \<le> nb \<and> nb \<le> longest_backoff"
proof -
  have cur: "2 \<le> cur" "cur \<le> 2 ^ 50" "cur \<le> 60000000000"
    using assms(4,5) by (simp_all add: DefaultInitialInterval_def DefaultMaxInterval_def)
  have nb: "nb = getRandomValueFromInterval (1 / 2) rnd cur" "cur' = incrementCurrentInterval cur"
    using assms(1) by (simp_all add: NextBackOff_def DefaultRandomizationFactor_def)
  have "(3 * cur + 2) div 2 \<le> longest_backoff" using cur(3) by (simp add: longest_backoff_def)
  then show ?thesis
    using getRandomValue_bounds [OF cur(1,2) assms(2,3)] incrementCurrentInterval_bounds [OF assms(4,5)] cur(1) nb
    by simp
qed

lemma circuit_state_inv:
  assumes "circuit_state now rnd cb = (st, cb')" and "circuit_inv cb" and "0 \<le> rnd" and "rnd \<le> 1"
  shows "circuit_inv (cb'\<lparr>halfOpens := 0\<rparr>)" and "st \<noteq> State_halfopen \<Longrightarrow> cb' = cb"
proof -
  obtain nb cur where nxt: "NextBackOff rnd (currentInterval cb) = (nb, cur)"
    by (cases "NextBackOff rnd (currentInterval cb)")
  have "DefaultInitialInterval \<le> cur \<and> cur \<le> DefaultMaxInterval \<and> 0 \<le> nb \<and> nb \<le> longest_backoff"
    using assms(2-4) by (intro NextBackOff_bounds [OF nxt]) (simp_all add: circuit_inv_def)
  then show "circuit_inv (cb'\<lparr>halfOpens := 0\<rparr>)"
    using assms(1,2) nxt by (auto simp: circuit_state_def circuit_inv_def split: if_splits)
  show "st \<noteq> State_halfopen \<Longrightarrow> cb' = cb"
    using assms(1) by (auto simp: circuit_state_def split: if_splits prod.splits)
qed

lemma circuit_Ready_inv:
  assumes "circuit_Ready env cb = (rdy, cb')" and "circuit_inv cb" and "env_ok env"
  shows "circuit_inv cb'"
proof -
  obtain st cb1 where st: "circuit_state (ce_ready env) (ce_rnd_ready env) cb = (st, cb1)"
    by (cases "circuit_state (ce_ready env) (ce_rnd_ready env) cb")
  note inv = circuit_state_inv [OF st assms(2)]
  show ?thesis using assms inv st by (auto simp: circuit_Ready_def env_ok_def split: if_splits)
qed

lemma circuit_Fail_inv: "circuit_inv cb \<Longrightarrow> circuit_inv (circuit_Fail env cb)"
  by (simp add: circuit_Fail_def Trip_def circuit_inv_def Let_def)

lemma circuit_Success_inv:
  assumes "circuit_inv cb" and "env_ok env"
  shows "circuit_inv (circuit_Success env cb)"
proof -
  obtain nb cur where nxt: "NextBackOff (ce_rnd_success env) DefaultInitialInterval = (nb, cur)"
    by (cases "NextBackOff (ce_rnd_success env) DefaultInitialInterval")
  let ?cb = "cb\<lparr>nextBackOff := nb, currentInterval := cur\<rparr>"
  have "DefaultInitialInterval \<le> cur \<and> cur \<le> DefaultMaxInterval \<and> 0 \<le> nb \<and> nb \<le> longest_backoff"
    using assms(2) by (intro NextBackOff_bounds [OF nxt]) (simp_all add: env_ok_def DefaultInitialInterval_def DefaultMaxInterval_def)
  then have inv: "circuit_inv ?cb" using assms(1) by (simp add: circuit_inv_def)
  obtain st cb' where st: "circuit_state (ce_state env) (ce_rnd_state env) ?cb = (st, cb')"
    by (cases "circuit_state (ce_state env) (ce_rnd_state env) ?cb")
  have "circuit_inv (cb'\<lparr>halfOpens := 0\<rparr>)" "st \<noteq> State_halfopen \<longrightarrow> cb' = ?cb"
    using circuit_state_inv [OF st inv] assms(2) by (auto simp: env_ok_def)
  then show ?thesis
    using nxt st inv by (auto simp: circuit_Success_def circuit_Reset_def ResetCounters_def circuit_inv_def)
qed

lemma circuit_Call_inv:
  assumes "circuit_Call env fn d cb w = (err, cb', w')" and "circuit_inv cb" and "env_ok env"
  shows "circuit_inv cb'"
proof (cases "circuit_open env cb")
  case True
  then show ?thesis using assms(1,2) circuit.open_skips [of env cb fn d w] by simp
next
  case False
  obtain rdy cb1 where ready: "circuit_Ready env cb = (rdy, cb1)" by (cases "circuit_Ready env cb")
  have "circuit_inv cb1" by (rule circuit_Ready_inv [OF ready assms(2,3)])
  then show ?thesis
    using assms(1,3) circuit_Call_runs [OF False ready, of fn d w] circuit_Fail_inv circuit_Success_inv
    by (auto simp: Let_def split: if_splits)
qed


section \<open>Sequences of calls\<close>

text \<open>Calls one after the other, each with its surroundings and its function.\<close>

fun circuit_calls :: "int \<Rightarrow> (circuit_env \<times> 'w protected) list \<Rightarrow> Circuit_Breaker \<Rightarrow> 'w
    \<Rightarrow> go_error option list \<times> Circuit_Breaker \<times> 'w" where
  "circuit_calls d [] cb w = ([], cb, w)"
| "circuit_calls d ((env, fn) # cs) cb w =
     (let (err, cb, w) = circuit_Call env fn d cb w; (es, cb, w) = circuit_calls d cs cb w in (err # es, cb, w))"

lemma circuit_calls_snoc:
  "circuit_calls d (cs @ [(env, fn)]) cb w =
     (let (es, cb, w) = circuit_calls d cs cb w; (err, cb, w) = circuit_Call env fn d cb w in (es @ [err], cb, w))"
  by (induction cs arbitrary: cb w) (auto simp: Let_def split: prod.splits)

lemma circuit_calls_length: "length (fst (circuit_calls d cs cb w)) = length cs"
proof (induction cs arbitrary: cb w)
  case (Cons c cs)
  then show ?case by (cases c) (simp add: Let_def case_prod_unfold)
qed simp

lemma circuit_calls_inv:
  assumes "circuit_inv cb" and "list_all (env_ok \<circ> fst) cs"
  shows "circuit_inv (fst (snd (circuit_calls d cs cb w)))"
  using assms
proof (induction cs arbitrary: cb w)
  case (Cons c cs)
  obtain env fn where c: "c = (env, fn)" by (cases c)
  obtain err cb1 w1 where call: "circuit_Call env fn d cb w = (err, cb1, w1)" by (cases "circuit_Call env fn d cb w")
  have "circuit_inv cb1" using Cons.prems c by (intro circuit_Call_inv [OF call]) simp_all
  then have "circuit_inv (fst (snd (circuit_calls d cs cb1 w1)))" using Cons.prems(2) by (intro Cons.IH) simp_all
  then show ?case by (cases "circuit_calls d cs cb1 w1") (simp add: c call)
qed simp

lemma NewBreaker_inv:
  assumes "0 \<le> rnd" and "rnd \<le> 1"
  shows "circuit_inv (NewBreakerWithOptions trip rnd now)"
  using NextBackOff_bounds [OF _ assms, of DefaultInitialInterval]
  by (cases "NextBackOff rnd DefaultInitialInterval")
    (simp add: NewBreakerWithOptions_def circuit_inv_def DefaultInitialInterval_def DefaultMaxInterval_def)

text \<open>C20: A tripped breaker tries again.  Whatever calls were made through a breaker of any of the three
  kinds since it was made, and however they ended, a call that comes more than 90 seconds and a
  nanosecond after the last failure runs its function.\<close>

theorem circuit_retries:
  assumes "0 \<le> rnd" and "rnd \<le> 1" and "list_all (env_ok \<circ> fst) cs"
    and "circuit_calls d cs (NewBreakerWithOptions trip rnd now) w = (es, cb, w')"
    and "time_Sub (ce_ready env) (lastFailure cb) > 90000000001"
  shows "snd (snd (circuit_Call env fn d cb w')) = snd (fn w')"
proof -
  have "circuit_inv cb"
    using circuit_calls_inv [OF NewBreaker_inv [OF assms(1,2)] assms(3), of d trip now w] assms(4) by simp
  then have "fst (circuit_state (ce_ready env) (ce_rnd_ready env) cb) \<noteq> State_open"
    using assms(5) by (auto simp: circuit_state_def circuit_inv_def longest_backoff_def split: prod.splits)
  then have "\<not> circuit_open env cb" by (simp add: circuit_open_def)
  then show ?thesis
    by (cases "circuit_Ready env cb") (simp add: circuit_Call_runs Let_def)
qed

text \<open>C40: When a retry closes the breaker.  The comment on \<open>Success\<close> says that a success triggered by a
  retry resets the breaker.  In fact a new back-off has been drawn by then, and the breaker is reset
  only if more time than that has passed since the last failure; otherwise it stays tripped although
  the retry succeeded.\<close>

theorem retry_success_resets_iff:
  assumes "tripped cb" and "circuit_inv cb" and "env_ok env" and "\<not> circuit_open env cb"
    and "fst (fn w) = None" and "d = 0 \<or> \<not> ce_timer env"
    and "circuit_Call env fn d cb w = (err, cb', w')"
  shows "err = None \<and> (tripped cb' \<longleftrightarrow>
    time_Sub (ce_state env) (lastFailure cb) \<le> fst (NextBackOff (ce_rnd_success env) DefaultInitialInterval))"
proof -
  obtain rdy cb1 where ready: "circuit_Ready env cb = (rdy, cb1)" by (cases "circuit_Ready env cb")
  have half: "tripped cb1" "lastFailure cb1 = lastFailure cb"
    using ready assms(1) by (auto simp: circuit_Ready_def circuit_state_def split: prod.splits if_splits)
  have inv: "circuit_inv cb1" by (rule circuit_Ready_inv [OF ready assms(2,3)])
  obtain nb cur where nxt: "NextBackOff (ce_rnd_success env) DefaultInitialInterval = (nb, cur)"
    by (cases "NextBackOff (ce_rnd_success env) DefaultInitialInterval")
  have "0 \<le> nb"
    using NextBackOff_bounds [OF nxt] assms(3) by (simp add: env_ok_def DefaultInitialInterval_def DefaultMaxInterval_def)
  moreover have "err = None" "cb' = circuit_Success env cb1"
    using assms(5-7) circuit_Call_runs [OF assms(4) ready, of fn d w] by (auto simp: Let_def)
  ultimately show ?thesis
    using half inv nxt
    by (simp add: circuit_Success_def circuit_state_def circuit_inv_def circuit_Reset_def ResetCounters_def Let_def
        case_prod_unfold)
qed


text \<open>The failures at the end of a sequence of results.\<close>

definition streak :: "go_error option list \<Rightarrow> nat" where
  "streak es = length (takeWhile (\<lambda>e. e \<noteq> None) (rev es))"

lemma streak_simps: "streak [] = 0" "streak (es @ [e]) = (if e = None then 0 else streak es + 1)"
  by (simp_all add: streak_def)

lemma circuit_Call_closed:
  assumes "\<not> tripped cb" and "ShouldTrip cb = ConsecutiveTripFunc (int n)" and "consecFailures cb = int s" and "0 < n" and "s < n"
    and "circuit_Call env fn d cb w = (err, cb', w')"
  shows "w' = snd (fn w)" and "ShouldTrip cb' = ConsecutiveTripFunc (int n)"
    and "consecFailures cb' = int (if err = None then 0 else s + 1)"
    and "tripped cb' \<longleftrightarrow> (if err = None then 0 else s + 1) \<ge> n"
proof -
  have ready: "circuit_Ready env cb = (True, cb)" and closed: "\<not> circuit_open env cb"
    using assms(1) by (simp_all add: circuit_Ready_def circuit_open_def circuit_state_def)
  note run = circuit_Call_runs [OF closed ready, of fn d w]
  show "w' = snd (fn w)" using run assms(6) by (simp add: Let_def)
  have cb': "cb' = (if err = None then circuit_Success env cb else circuit_Fail env cb)"
    using run assms(6) by (auto simp: Let_def)
  show "ShouldTrip cb' = ConsecutiveTripFunc (int n)" "consecFailures cb' = int (if err = None then 0 else s + 1)"
      "tripped cb' \<longleftrightarrow> (if err = None then 0 else s + 1) \<ge> n"
    using assms(1-5) unfolding cb'
    by (auto simp: circuit_Success_def circuit_state_def circuit_Fail_def Trip_def Let_def case_prod_unfold)
qed

lemma consecutive_calls:
  assumes "0 < n" and "\<forall>k < length cs. streak (take k es) < n"
    and "circuit_calls d cs (NewConsecutiveBreaker (int n) rnd now) w = (es, cb, w')"
  shows "w' = fold (\<lambda>(env, fn) w. snd (fn w)) cs w \<and> length es = length cs \<and> ShouldTrip cb = ConsecutiveTripFunc (int n) \<and>
    consecFailures cb = int (streak es) \<and> (tripped cb \<longleftrightarrow> streak es \<ge> n)"
  using assms(2,3)
proof (induction cs arbitrary: es cb w' rule: rev_induct)
  case Nil
  then show ?case
    using assms(1)
    by (cases "NextBackOff rnd DefaultInitialInterval")
      (auto simp: NewConsecutiveBreaker_def NewBreakerWithOptions_def streak_simps)
next
  case (snoc c cs)
  obtain env fn where c: "c = (env, fn)" by (cases c)
  obtain es0 cb0 w0 where calls0: "circuit_calls d cs (NewConsecutiveBreaker (int n) rnd now) w = (es0, cb0, w0)"
    by (cases "circuit_calls d cs (NewConsecutiveBreaker (int n) rnd now) w")
  obtain err cb1 w1 where call: "circuit_Call env fn d cb0 w0 = (err, cb1, w1)" by (cases "circuit_Call env fn d cb0 w0")
  have es: "es = es0 @ [err]" "cb = cb1" "w' = w1"
    using snoc.prems(2) calls0 call by (simp_all add: c circuit_calls_snoc)
  have len: "length es0 = length cs"
    using circuit_calls_length [of d cs "NewConsecutiveBreaker (int n) rnd now" w] calls0 by simp
  have pre: "\<forall>k < length cs. streak (take k es0) < n" "streak es0 < n"
    using snoc.prems(1) es(1) len by (force, force dest: spec [of _ "length cs"])
  note IH = snoc.IH [OF pre(1) calls0]
  have "\<not> tripped cb0" "ShouldTrip cb0 = ConsecutiveTripFunc (int n)" "consecFailures cb0 = int (streak es0)"
    using IH pre(2) by simp_all
  note step = circuit_Call_closed [OF this assms(1) pre(2) call]
  show ?case using IH step by (simp add: es c streak_simps)
qed


text \<open>C19: A breaker for consecutive failures opens exactly at its threshold.  As long as the calls made
  through a new one have not failed as often in a row as the threshold says, every function ran and
  the breaker is not tripped.  It is tripped as soon as they have, and then a call within the back-off
  returns \<open>ErrBreakerOpen\<close> without running its function and without any change to the breaker.\<close>

theorem consecutive_breaker_exact:
  assumes "0 < n" and "\<forall>k < length cs. streak (take k es) < n"
    and "circuit_calls d cs (NewConsecutiveBreaker (int n) rnd now) w = (es, cb, w')"
  shows "w' = fold (\<lambda>(env, fn) w. snd (fn w)) cs w \<and> (tripped cb \<longleftrightarrow> streak es \<ge> n) \<and>
    (streak es \<ge> n \<and> time_Sub (ce_ready env) (lastFailure cb) \<le> nextBackOff cb \<longrightarrow>
       circuit_Call env fn d cb w' = (Some ErrBreakerOpen, cb, w'))"
proof -
  note calls = consecutive_calls [OF assms]
  have "circuit_open env cb" if "tripped cb" "time_Sub (ce_ready env) (lastFailure cb) \<le> nextBackOff cb"
    using that by (simp add: circuit_open_def circuit_state_def)
  then show ?thesis using calls circuit.open_skips [of env cb fn d w'] by simp
qed


definition at_time :: "int \<Rightarrow> circuit_env" where
  "at_time t = \<lparr>ce_ready = t, ce_window = t, ce_access = t, ce_fail = t, ce_trip = t, ce_state = t, ce_rnd_ready = 0,
     ce_rnd_success = 1 / 2, ce_rnd_state = 0, ce_timer = False\<rparr>"

definition failing :: "nat protected" where
  "failing n = (Some (NewError ''down''), n + 1)"

definition working :: "nat protected" where
  "working n = (None, n + 1)"

lemma NextBackOff_samples:
  "NextBackOff 0 DefaultInitialInterval = (250000000, 750000000)"
  "NextBackOff 0 750000000 = (375000000, 1125000000)"
  "NextBackOff (1 / 2) DefaultInitialInterval = (500000000, 750000000)"
proof -
  have zero: "getRandomValueFromInterval (1 / 2) 0 cur = cur div 2" if "2 \<le> cur" "cur \<le> 2 ^ 50" for cur
  proof -
    have "float64_frac (of_int cur / 2) = of_int cur / 2" using that by (intro float64_frac_half) simp_all
    moreover have "\<lfloor>of_int cur / (2 :: rat)\<rfloor> = cur div 2" using floor_divide_of_int_eq [where 'a = rat, of cur 2] by simp
    moreover have "float64_frac 0 = 0" by (simp add: float64_frac_def)
    ultimately show ?thesis
      using getRandomValue_eq [OF that, of 0] by (simp only: mult_zero_left add_0_right)
  qed
  have exact: "float64_frac (of_int 500000001 / 2) = of_int 500000001 / 2" "float64_frac (of_int 1000000001 / 2) = of_int 1000000001 / 2"
    by (rule float64_frac_half; simp)+
  have sums: "1 / 2 * (of_int 500000000 + 1) = (of_int 500000001 / 2 :: rat)"
      "of_int 500000000 / 2 + of_int 500000001 / 2 = (of_int 1000000001 / 2 :: rat)"
      "\<lfloor>of_int 1000000001 / 2 :: rat\<rfloor> = 500000000"
    by (simp_all add: floor_eq_iff)
  have mid: "getRandomValueFromInterval (1 / 2) (1 / 2) 500000000 = 500000000"
    using getRandomValue_eq [of 500000000 "1 / 2"] unfolding sums(1) exact(1) sums(2) exact(2) sums(3) by simp
  show "NextBackOff 0 DefaultInitialInterval = (250000000, 750000000)" "NextBackOff 0 750000000 = (375000000, 1125000000)"
      "NextBackOff (1 / 2) DefaultInitialInterval = (500000000, 750000000)"
    by (simp_all add: NextBackOff_def DefaultRandomizationFactor_def DefaultInitialInterval_def zero mid
        incrementCurrentInterval_eq DefaultMaxInterval_def)
qed

definition sample_calls :: "(circuit_env \<times> nat protected) list" where
  "sample_calls = [(at_time 7, failing), (at_time 8, failing)]"

definition sample_breaker :: Circuit_Breaker where
  "sample_breaker = fst (snd (circuit_calls 0 sample_calls (NewConsecutiveBreaker 2 0 0) 0))"

lemma at_time_ok: "env_ok (at_time t)"
  by (simp add: env_ok_def at_time_def)

lemma sample_breaker:
  "circuit_calls 0 sample_calls (NewConsecutiveBreaker 2 0 0) 0 =
     ([Some (NewError ''down''), Some (NewError ''down'')], sample_breaker, 2)"
  "lastFailure sample_breaker = 8"
  "nextBackOff sample_breaker = 250000000"
  "tripped sample_breaker"
  by (simp_all add: sample_breaker_def sample_calls_def at_time_def failing_def NewConsecutiveBreaker_def
      NewBreakerWithOptions_def NextBackOff_samples circuit_Call_def circuit_Ready_def circuit_state_def circuit_Fail_def
      Trip_def Let_def)

lemma sample_breaker_inv: "circuit_inv sample_breaker"
  unfolding sample_breaker_def NewConsecutiveBreaker_def
  by (intro circuit_calls_inv NewBreaker_inv) (simp_all add: sample_calls_def at_time_ok)

theorem consecutive_breaker_exact_witness:
  "circuit_Call (at_time 9) working 0 sample_breaker 2 = (Some ErrBreakerOpen, sample_breaker, 2)"
proof -
  let ?es = "[Some (NewError ''down''), Some (NewError ''down'')]"
  have "streak (take k ?es) < 2" if "k < 2" for k
    using that by (auto simp: streak_def less_2_cases_iff)
  then have run: "\<forall>k < length sample_calls. streak (take k ?es) < 2" by (simp add: sample_calls_def)
  have two: "(0 :: nat) < 2" by simp
  have calls: "circuit_calls 0 sample_calls (NewConsecutiveBreaker (int 2) 0 0) 0 = (?es, sample_breaker, 2)"
    using sample_breaker(1) by simp
  have "streak ?es \<ge> 2" "time_Sub (ce_ready (at_time 9)) (lastFailure sample_breaker) \<le> nextBackOff sample_breaker"
    by (simp_all add: streak_def sample_breaker(2,3) at_time_def time_Sub_def)
  then show ?thesis
    using consecutive_breaker_exact [OF two run calls, of "at_time 9" working] by blast
qed

theorem circuit_retries_witness:
  "snd (snd (circuit_Call (at_time 90000000100) working 0 sample_breaker 2)) = 3"
proof -
  have ok: "list_all (env_ok \<circ> fst) sample_calls" by (simp add: sample_calls_def at_time_ok)
  have calls: "circuit_calls 0 sample_calls (NewBreakerWithOptions (ConsecutiveTripFunc 2) 0 0) 0 =
      ([Some (NewError ''down''), Some (NewError ''down'')], sample_breaker, 2)"
    using sample_breaker(1) by (simp add: NewConsecutiveBreaker_def)
  have "time_Sub (ce_ready (at_time 90000000100)) (lastFailure sample_breaker) > 90000000001"
    by (simp add: sample_breaker(2) at_time_def time_Sub_def)
  from circuit_retries [OF _ _ ok calls this, of working] show ?thesis by (simp add: working_def)
qed

theorem retry_success_resets_iff_witness:
  "fst (circuit_Call (at_time 300000000) working 0 sample_breaker 2) = None \<and>
   tripped (fst (snd (circuit_Call (at_time 300000000) working 0 sample_breaker 2)))"
proof -
  let ?env = "at_time 300000000"
  obtain err cb w where call: "circuit_Call ?env working 0 sample_breaker 2 = (err, cb, w)"
    by (cases "circuit_Call ?env working 0 sample_breaker 2")
  have "\<not> circuit_open ?env sample_breaker"
    using sample_breaker(2-4) sample_breaker_inv
    by (simp add: circuit_open_def circuit_state_def at_time_def time_Sub_def circuit_inv_def Let_def case_prod_unfold)
  note iff = retry_success_resets_iff [OF sample_breaker(4) sample_breaker_inv at_time_ok this _ _ call]
  have env: "ce_state ?env = 300000000" "ce_rnd_success ?env = 1 / 2" "\<not> ce_timer ?env" by (simp_all add: at_time_def)
  show ?thesis
    using iff unfolding env(1,2) NextBackOff_samples by (simp add: env(3) call working_def sample_breaker(2) time_Sub_def)
qed

end
