(* ===== verification/Log.thy ===== *)
theory Log
  imports Frpc_Prelude
begin

text \<open>
  \<open>src/log\<close>: the package's logger, which can be replaced, and the default one.  What \<open>fmt\<close> makes of
  values and formats, and the colours of package \<open>color\<close>, are parameters.  A line goes to the output;
  the process goes on, exits or panics.
\<close>

datatype level = DEBUG | INFO | WARN | ERROR | FATAL | PANIC

text \<open>The arguments of a plain function, and of one whose name ends in \<open>f\<close>.\<close>

datatype 'v log_args = Args "'v list" | Formatted string "'v list"

record 'v fmt_libs =
  Sprint :: "'v list \<Rightarrow> string"
  Sprintf :: "string \<Rightarrow> 'v list \<Rightarrow> string"
  as_value :: "'v list \<Rightarrow> 'v"
  paint :: "level \<Rightarrow> string \<Rightarrow> string"

datatype log_end = Continues | Exits int | Panics string

definition log_header :: "string \<Rightarrow> string \<Rightarrow> string" where
  "log_header lvl msg = lvl @ '': '' @ msg"

fun render :: "'v fmt_libs \<Rightarrow> 'v log_args \<Rightarrow> string" where
  "render lib (Args v) = Sprint lib v"
| "render lib (Formatted f v) = Sprintf lib f v"

text \<open>
  The methods of \<open>defaultLogger\<close>: the lines written, and how it ends.  \<open>Panic\<close> passes its arguments on
  as one slice.
\<close>

fun defaultLogger :: "'v fmt_libs \<Rightarrow> level \<Rightarrow> 'v log_args \<Rightarrow> string list \<times> log_end" where
  "defaultLogger lib DEBUG a = ([log_header ''DEBUG'' (render lib a)], Continues)"
| "defaultLogger lib INFO a = ([log_header (paint lib INFO ''INFO '') (render lib a)], Continues)"
| "defaultLogger lib WARN a = ([log_header (paint lib WARN ''WARN '') (render lib a)], Continues)"
| "defaultLogger lib ERROR a = ([log_header (paint lib ERROR ''ERROR'') (render lib a)], Continues)"
| "defaultLogger lib FATAL a = ([log_header (paint lib FATAL ''FATAL'') (render lib a)], Exits 1)"
| "defaultLogger lib PANIC (Args v) = (let s = Sprint lib [as_value lib v] in ([s], Panics s))"
| "defaultLogger lib PANIC (Formatted f v) = (let s = Sprintf lib f v in ([s], Panics s))"

text \<open>The functions of the package call the logger in use; \<open>SetLogger\<close> replaces it.\<close>

type_synonym ('v) logger = "level \<Rightarrow> 'v log_args \<Rightarrow> string list \<times> log_end"

definition SetLogger :: "'v logger \<Rightarrow> 'v logger \<Rightarrow> 'v logger" where
  "SetLogger logger l = logger"

definition log_call :: "'v logger \<Rightarrow> level \<Rightarrow> 'v log_args \<Rightarrow> string list \<times> log_end" where
  "log_call l lvl a = l lvl a"

text \<open>With the default logger one line is written, and only \<open>Fatal\<close> and \<open>Panic\<close> do not return.\<close>

lemma defaultLogger_returns:
  "length (fst (log_call (defaultLogger lib) lvl a)) = 1 \<and>
   (snd (log_call (defaultLogger lib) lvl a) = Continues \<longleftrightarrow> lvl \<notin> {FATAL, PANIC})"
  by (cases "(lib, lvl, a)" rule: defaultLogger.cases) (simp_all add: log_call_def Let_def)

end
