(* ===== verification/Spec2Isabelle.thy ===== *)
theory Spec2Isabelle
  imports Selector_New Selector_Geo Client_Pool Rpc Registry_Use Circuit Log
begin

text \<open>
  A verification of the RPC library frpc (Go, under \<open>src/\<close>).

  \<^bold>\<open>The program.\<close>  A server offers the methods of Go values as services; a client calls them by the name
  of the service and of the method.  Both speak frames of a binary protocol (\<open>src/protocol\<close>) whose
  payloads a codec (\<open>src/codec\<close>, \<open>src/core\<close>) encodes.  Servers announce themselves in a key-value store
  and clients discover and watch them there (\<open>src/registry\<close>).  A client selects a server
  (\<open>src/selector\<close>), keeps one connection per server (\<open>src/client\<close>), treats failures by its fail mode and
  protects calls with a circuit breaker (\<open>src/circuit\<close>).  A server (\<open>src/server\<close>) accepts connections,
  handles each request in a goroutine and tells its controllers (\<open>src/controller\<close>), which count, trace
  or limit.

  \<^bold>\<open>Conventions.\<close>  A Go string is a \<open>string\<close>, bytes are \<open>8 word list\<close>, header fields are words of their
  width, \<open>int64\<close> arithmetic wraps where it can overflow (\<open>int64\<close> in \<open>Ratelimit\<close>), \<open>float64\<close> operations
  round rationals to 53 bits (\<open>Float64\<close>, \<open>float64_frac\<close> for fractions below 1).  Maps are association
  lists whose order is that of one \<open>range\<close> loop.  Errors are values of \<open>go_error\<close>; a panic is \<open>None\<close> or
  \<open>Panic\<close>.  Shared pointers are indices into a store.  The clock, random numbers, the choice of a pooled
  object and the outcome of a race between a timer and a function are arguments.  Goroutines are
  interleaved by step relations (\<open>client_step\<close>, \<open>server_step\<close>) or by sequences of events
  (\<open>accept_event_step\<close>, \<open>watch_step\<close>).

  \<^bold>\<open>Theories.\<close>

  \<^item> \<open>Frpc_Prelude\<close>: types, errors, slices with bounds checks, named collections, the locale \<open>fixed_field\<close>
    of bit fields.  \<open>Go_Strings\<close>, \<open>Url\<close>: the functions of \<open>strings\<close>, \<open>strconv\<close>, \<open>unicode/utf8\<close> and \<open>net/url\<close>
    that the program calls; \<open>ParseQuery\<close> reads back what \<open>Values_Encode\<close> writes.  \<open>Float64\<close>: the locale
    \<open>float_rounding\<close> and its interpretation.  \<open>Util\<close>: \<open>src/util\<close>.

  \<^item> \<open>Message\<close>, \<open>Message_Decode\<close> (\<open>src/protocol\<close>): header, \<open>Encode\<close>, \<open>Decode\<close>, the pool.  Round trip,
    truncated frames, the bytes consumed, the frames that make the decoder panic, the pool's invariant.

  \<^item> \<open>Codec\<close>: \<open>src/error\<close>, \<open>src/codec\<close> and the table \<open>Codecs\<close>.  \<open>Log\<close>: \<open>src/log\<close>.

  \<^item> \<open>Selector_Interface\<close> states the contract of a selector as the locale \<open>selector\<close>;
    \<open>Selector_Simple\<close> (random, round robin), \<open>Selector_Weighted\<close>, \<open>Selector_Ping\<close>, \<open>Selector_Hash\<close> and
    \<open>Selector_New\<close> (the factory) interpret it.  Shown: only members are returned, fairness and bounds
    of the weights, that the jump hash ends, stays in range and moves few keys.  \<open>Selector_Geo\<close>: the
    selector by distance, which panics.

  \<^item> \<open>Client_Conn\<close> (one connection: \<open>send\<close>, \<open>handle_message\<close>, cancelling, closing), \<open>Client_Steps\<close> (its
    goroutines interleaved: no call is lost, responses are routed), \<open>Client_Spec\<close> (refinement of an
    abstract table of outstanding calls).  \<open>Client_Connect\<close>: options and dialling.  \<open>Client_Pool\<close>:
    selecting a server, the table of connections, \<open>Call\<close> in the three fail modes.

  \<^item> \<open>Breaker\<close>: the interface as the locale \<open>breaker\<close>, and \<open>breaker_simple.go\<close>.  \<open>Circuit_Window\<close>,
    \<open>Circuit\<close>: the rate, threshold and consecutive breakers with the vendored breaker, window and
    back-off; they interpret the same locale.  The window counts like a log of all events; the breaker
    for consecutive failures opens exactly at its threshold; every breaker tries again.

  \<^item> \<open>Ratelimit\<close>, \<open>Controller\<close>: the controllers with the vendored token bucket and the registry of
    \<open>go-metrics\<close>, and what their exporters are started with; the contract of a controller is the locale
    \<open>controllers\<close>.  No metric name is used for two kinds, those of the run-time system included.

  \<^item> \<open>Service\<close> (\<open>service.go\<close>), \<open>Server_Conn\<close> (\<open>serveConn\<close>, \<open>handleRequest\<close>), \<open>Server_Accept\<close> (options,
    listeners, the accept loop, \<open>Close\<close>).  Every request is answered once, whatever the interleaving;
    failures and panics of methods are reported.

  \<^item> \<open>Registry\<close>: \<open>EtcdRegister\<close>, \<open>ConsulRegister\<close>, the two discoveries and their watch loop over a store
    whose documented behaviour is given by \<open>put_law\<close>, \<open>get_law\<close> and \<open>list_law\<close>; \<open>mem_store\<close> keeps these
    laws.  The watch loop of \<open>discovery_consul.go\<close> is translated for itself and shown to do what the other
    does.  \<open>Registry_Use\<close>: the server's and the client's side, and that what is registered is discovered.

  \<^item> \<open>Rpc\<close> and this theory: a call from the client through the server and back.

  \<^bold>\<open>Bounds and fuel.\<close>  No definition takes fuel.  Loops are structural recursions or have a termination
  proof: those over metadata and query strings, over the slice of weighted servers, over the
  frames a connection receives, and the loop of the jump hash, whose \<open>float64\<close> steps strictly grow.  Of the random generator, \<open>None\<close> means that the clock readings
  given did not suffice to seed it.  The longest back-off of a breaker, 90 seconds and a nanosecond, is
  one and a half times the maximal interval and the one that the vendored formula adds.

  \<^bold>\<open>Parameters.\<close>  The serialisers of the codecs, \<open>compress/gzip\<close>, \<open>reflect\<close> (data about a receiver), user
  methods (functions on the application's state), the network, ICMP, the stores behind \<open>libkv\<close>, \<open>fmt\<close> of
  user values, and \<open>math\<close> in the selector by distance.

  \<^bold>\<open>Not modelled.\<close>  The rates and samples inside \<open>go-metrics\<close> and the values of the gauges of the
  run-time system; what exporters send; what the vendored packages offer and frpc does
  not call; TLS, KCP and QUIC below an open connection; deadlines, which are errors of the reader here;
  data races on unsynchronised fields, such as the counter of the round-robin selector and the fields
  of the breakers; \<open>serverMessageChan\<close>, which is written and never read; \<open>BreakerMode\<close>, which nothing
  uses; and the tests under \<open>src/test\<close>.
\<close>

section \<open>A call from end to end\<close>

text \<open>C1: A remote call does what a local call would.  A client that is neither closed nor shut down sends a
  call whose payload is not compressed; the server has the service and the method, and the method
  returns without an error.  Then the whole exchange goes through: the method ran once on the decoded
  argument, with the metadata the caller sent, the call's reply is what the client's codec makes of
  the encoded result, its error is as it was, its response metadata are those the method set, it is
  handed to its channel and is no longer pending, and no other call of the client changed.\<close>

theorem rpc_end_to_end:
  assumes client: "wf_store w" "\<not> shutdown w" "\<not> closing w" "\<forall>m \<in> set (pool w). cleared m"
      "unat (seq w) + 1 < 2 ^ 64" "c < length (calls w)" "cleared buf"
    and call: "x = calls w ! c" "servicePath x \<noteq> '''' \<or> serviceMethod x \<noteq> ''''"
      "\<forall>kvs. metadata x = Some kvs \<longrightarrow> distinct (map fst kvs)"
    and codec: "Codecs (serializeType (opt w)) = Some cd" "codec_Encode (codec_lib lib) cd (args x) = Inr data"
      "length data \<le> 1024 \<or> compressType (opt w) \<noteq> Gzip"
    and server: "list_all controller_ok (sv_controllers s)" "\<forall>m \<in> set pl. cleared m"
      "map_of (service_map s) (servicePath x) = Some sv" "map_of (sv_method sv) (serviceMethod x) = Some mt"
    and arg: "codec_Decode slib cd data
      (zero_value rl (if Kind_Ptr (argType mt) then Elem (argType mt) else argType mt)) = (a, None)"
    and run: "mt_func mt (app s) (received_meta (metadata x) None) [] a (zero_value rl (Elem (replyType mt))) =
      (Returned None, st, rm, r)" "distinct (map fst rm)"
    and result: "codec_Encode slib cd r = Inr rdata" "rdata \<noteq> []"
      "codec_Decode (codec_lib lib) cd rdata (reply x) = (v, None)"
    and size: "message_size (servicePath x) (serviceMethod x) (metadata x) data < 2 ^ 32"
      "message_size (servicePath x) (serviceMethod x) (response_meta rm) rdata < 2 ^ 32"
      "within_limit mx (message_size (servicePath x) (serviceMethod x) (metadata x) data)"
      "within_limit mx (message_size (servicePath x) (serviceMethod x) (response_meta rm) rdata)"
  shows "\<exists>w' s'. exchange lib slib rl mx ch buf c w pl s = Some (None, w', s') \<and> app s' = st \<and>
    calls w' = (calls w)[c := x\<lparr>reply := v, resMetadata := response_meta rm\<rparr>] \<and> delivered w' c \<and>
    map_of (pending_map w') (seq w) = None"
proof -
  have plain: "wire lib (opt w) data data" using codec(3) by (auto simp: wire_def)
  have none: "(if length data > 1024 \<and> compressType (opt w) = Gzip then Gzip else CompressNone) = CompressNone"
    using codec(3) by auto
  obtain w1 q k where w1: "wf_store w1" "calls w1 = calls w" "map_of (pending_map w1) (seq w) = Some c"
    and hdr: "wf_header (Header q)" "Seq (Header q) = seq w" "MessageType (Header q) = Request" "\<not> IsHeartbeat (Header q)"
      "\<not> IsOneway (Header q)" "CompressType (Header q) = CompressNone" "MessageStatusType (Header q) = Normal"
      "SerializeType (Header q) = serializeType (opt w)"
    and q: "ServicePath q = servicePath x" "ServiceMethod q = serviceMethod x"
      "Metadata q = received_meta (metadata x) None" "Payload q = data"
    and k: "service_map (sc_server k) = service_map s" "app (sc_server k) = app s"
      "list_all controller_ok (sv_controllers (sc_server k))" "\<forall>m \<in> set (sc_pool k). cleared m" "sc_open k" "sc_out k = []"
    and ex: "\<forall>res k' err b w'.
      serve_request slib rl (ch_copy ch) (snd (ch_times ch)) (fst (ch_times ch)) q k = Some k' \<and> sc_out k' = [frame res] \<and>
      wf_message res \<and> within_limit mx (length (body res)) \<and> cleared buf \<and>
      handle_message lib (received res buf) w1 = (err, b, w') \<longrightarrow>
      exchange lib slib rl mx ch buf c w pl s = Some (err, w', sc_server k')"
    by (rule exchange_begins [OF client(1-6) call codec(1,2) plain size(1,3) server(2,1), unfolded none])
  obtain res k' where sv: "serve_request slib rl (ch_copy ch) (snd (ch_times ch)) (fst (ch_times ch)) q k = Some k'"
      "sc_out k' = sc_out k @ [frame res]" "app (sc_server k') = st"
    and res: "Header res = SetMessageType Response (Header q)" "ServicePath res = ServicePath q"
      "ServiceMethod res = ServiceMethod q" "Metadata res = response_meta rm" "Payload res = rdata"
    by (rule serve_request_success [where k = k and req = q and mt = mt and cd = cd and a = a])
      (use server(3,4) codec(1) arg run(1) result(1) hdr k in \<open>simp_all add: q\<close>)
  have wfr: "wf_message res" "within_limit mx (length (body res))"
    using hdr(1) run(2) size(2,4) by (simp_all add: wf_message_def length_body res q response_meta_def)
  have "\<exists>w'. handle_message lib (received res buf) w1 = (None, Reset (received res buf), w') \<and> delivered w' c \<and>
      calls w' = (calls w1)[c := (calls w1 ! c)\<lparr>reply := v, resMetadata := Metadata (received res buf)\<rparr>] \<and>
      map_of (pending_map w') = (map_of (pending_map w1))(Seq (Header (received res buf)) := None)"
    by (rule handle_message_routes [OF w1(1), where cd = cd])
      (use w1(3) hdr codec(1) result(2,3) in \<open>simp_all add: received_def res w1(2) call(1)
        Request_def Response_def Normal_def Error_def CompressNone_def Gzip_def\<close>)
  then obtain w' where w': "handle_message lib (received res buf) w1 = (None, Reset (received res buf), w')" "delivered w' c"
      "calls w' = (calls w)[c := x\<lparr>reply := v, resMetadata := Metadata (received res buf)\<rparr>]"
      "map_of (pending_map w') = (map_of (pending_map w1))(Seq (Header (received res buf)) := None)"
    unfolding w1(2) call(1) [symmetric] by blast
  have "Metadata (received res buf) = response_meta rm"
    using client(7) by (auto simp: received_def received_meta_def res response_meta_def encodeMetadata_def encodePairs_eq_Nil)
  moreover have "Seq (Header (received res buf)) = seq w" by (simp add: received_def res hdr)
  ultimately show ?thesis
    using ex [rule_format, of k' res None "Reset (received res buf)" w'] sv wfr client(7) w' k(6) by simp
qed

definition rpc_client :: "string conn" where
  "rpc_client = fresh_call \<lparr>ReqMetaDataKey = Some [(''user'', ''u'')], ResMetaDataKey = None\<rparr> ''Arith'' ''Mul'' ''ping'' ''''
     (new_conn sample_option [])"

definition rpc_choices :: choices where
  "rpc_choices = \<lparr>ch_send = None, ch_read = None, ch_copy = None, ch_times = (5, 9)\<rparr>"

text \<open>The server of the examples, with its one service.\<close>

definition echo_method :: "(nat, string) methodType" where
  "echo_method = \<lparr>mt_func = echo, argType = Ptr (Named ''main'' ''Args''),
     replyType = Ptr (Named ''main'' ''Reply''), numCalls = 0\<rparr>"

lemma sample_service_lookup:
  "\<exists>sv. map_of (service_map sample_service_server) ''Arith'' = Some sv \<and>
     map_of (sv_method sv) ''Mul'' = Some echo_method"
  "sv_controllers sample_service_server = []" "app sample_service_server = 0"
  by (simp_all add: sample_service_server_def RegisterWithName_def RegisterWithMeta_def register_def NewServer_def
      controllerServer_Register_def service_map_def suitableMethods_def sample_rcvr_def suitable_def sample_reflect_def
      typeOfError_def isExported_def DecodeRune_def IsUpper_def method_entry_def echo_method_def Let_def)

lemma rpc_client_simps:
  "wf_store rpc_client" "\<not> shutdown rpc_client" "\<not> closing rpc_client" "pool rpc_client = []" "seq rpc_client = 0"
  "opt rpc_client = sample_option" "length (calls rpc_client) = 1"
  "servicePath (calls rpc_client ! 0) = ''Arith''" "serviceMethod (calls rpc_client ! 0) = ''Mul''"
  "args (calls rpc_client ! 0) = ''ping''" "metadata (calls rpc_client ! 0) = Some [(''user'', ''u'')]"
  by (simp_all add: rpc_client_def fresh_call_def new_conn_def wf_store_def pending_map_def)

theorem rpc_end_to_end_witness:
  "\<exists>w' s'. exchange store_libs store_codec sample_reflect 1000 rpc_choices NewMessage 0 rpc_client [] sample_service_server =
       Some (None, w', s') \<and> app s' = 1 \<and> reply (calls w' ! 0) = ''ping'' \<and> delivered w' 0"
proof -
  let ?x = "calls rpc_client ! 0"
  note w = rpc_client_simps
  obtain sv where sv: "map_of (service_map sample_service_server) (servicePath ?x) = Some sv"
    "map_of (sv_method sv) (serviceMethod ?x) = Some echo_method"
    using sample_service_lookup(1) w by auto
  have ne: "StringToByte ''ping'' \<noteq> []" by (simp add: StringToByte_def)
  have "\<exists>w' s'. exchange store_libs store_codec sample_reflect 1000 rpc_choices NewMessage 0 rpc_client [] sample_service_server =
       Some (None, w', s') \<and> app s' = 1 \<and>
       calls w' = (calls rpc_client)[0 := ?x\<lparr>reply := ''ping'', resMetadata := response_meta [(''server'', ''a'')]\<rparr>] \<and>
       delivered w' 0 \<and> map_of (pending_map w') (seq rpc_client) = None"
    by (rule rpc_end_to_end [where cd = MsgpackCodec and data = "StringToByte ''ping''" and a = "''ping''"
          and r = "''ping''" and rdata = "StringToByte ''ping''" and sv = sv and mt = echo_method,
          OF w(1-3) _ _ _ NewMessage_cleared refl _ _ _ _ _ _ _ sv])
      (simp_all add: w sample_service_lookup sample_option_def Codecs_def JSON_def ProtoBuffer_def MsgPack_def
        codec_Encode_def codec_Decode_def store_libs_def store_codec_def echo_def echo_method_def message_size_def
        within_limit_def encodeMetadata_def response_meta_def ne)
  then show ?thesis using w(7) by auto
qed

text \<open>C37: Compression breaks calls.  The server never decompresses: a request that the client compressed is
  handed to the server's codec as it is.  If the codec rejects the compressed bytes, the method is not
  run, and the call fails with the codec's error.\<close>

theorem compressed_call_fails:
  assumes client: "wf_store w" "\<not> shutdown w" "\<not> closing w" "\<forall>m \<in> set (pool w). cleared m"
      "unat (seq w) + 1 < 2 ^ 64" "c < length (calls w)" "cleared buf"
    and call: "x = calls w ! c" "servicePath x \<noteq> '''' \<or> serviceMethod x \<noteq> ''''"
      "\<forall>kvs. metadata x = Some kvs \<longrightarrow> distinct (map fst kvs)"
    and codec: "Codecs (serializeType (opt w)) = Some cd" "codec_Encode (codec_lib lib) cd (args x) = Inr data"
    and zip: "length data > 1024" "compressType (opt w) = Gzip" "Zip (zip_lib lib) data = Inr z"
    and server: "list_all controller_ok (sv_controllers s)" "\<forall>m \<in> set pl. cleared m"
      "map_of (service_map s) (servicePath x) = Some sv" "map_of (sv_method sv) (serviceMethod x) = Some mt"
    and arg: "codec_Decode slib cd z
      (zero_value rl (if Kind_Ptr (argType mt) then Elem (argType mt) else argType mt)) = (a, Some e)"
    and size: "message_size (servicePath x) (serviceMethod x) (metadata x) z < 2 ^ 32"
      "message_size (servicePath x) (serviceMethod x) (Some [(ServiceError, error_text e)]) [] < 2 ^ 32"
      "within_limit mx (message_size (servicePath x) (serviceMethod x) (metadata x) z)"
      "within_limit mx (message_size (servicePath x) (serviceMethod x) (Some [(ServiceError, error_text e)]) [])"
  shows "\<exists>w' s'. exchange lib slib rl mx ch buf c w pl s = Some (None, w', s') \<and> app s' = app s \<and> delivered w' c \<and>
    call_Error (calls w' ! c) = Some (ServiceErr (error_text e)) \<and> reply (calls w' ! c) = reply x"
proof -
  have wired: "wire lib (opt w) data z" using zip by (simp add: wire_def)
  obtain w1 q k where w1: "wf_store w1" "calls w1 = calls w" "map_of (pending_map w1) (seq w) = Some c"
    and hdr: "wf_header (Header q)" "Seq (Header q) = seq w" "MessageType (Header q) = Request" "\<not> IsHeartbeat (Header q)"
      "\<not> IsOneway (Header q)" "MessageStatusType (Header q) = Normal" "SerializeType (Header q) = serializeType (opt w)"
    and q: "ServicePath q = servicePath x" "ServiceMethod q = serviceMethod x" "Payload q = z"
    and k: "service_map (sc_server k) = service_map s" "app (sc_server k) = app s"
      "list_all controller_ok (sv_controllers (sc_server k))" "\<forall>m \<in> set (sc_pool k). cleared m" "sc_open k" "sc_out k = []"
    and ex: "\<forall>res k' err b w'.
      serve_request slib rl (ch_copy ch) (snd (ch_times ch)) (fst (ch_times ch)) q k = Some k' \<and> sc_out k' = [frame res] \<and>
      wf_message res \<and> within_limit mx (length (body res)) \<and> cleared buf \<and>
      handle_message lib (received res buf) w1 = (err, b, w') \<longrightarrow>
      exchange lib slib rl mx ch buf c w pl s = Some (err, w', sc_server k')"
    by (rule exchange_begins [OF client(1-6) call codec wired size(1,3) server(2,1)])
  obtain res k' where sv: "serve_request slib rl (ch_copy ch) (snd (ch_times ch)) (fst (ch_times ch)) q k = Some k'"
      "sc_out k' = sc_out k @ [frame res]" "app (sc_server k') = app (sc_server k)"
    and res: "Header res = SetMessageStatusType Error (SetMessageType Response (Header q))" "ServicePath res = ServicePath q"
      "ServiceMethod res = ServiceMethod q" "Metadata res = Some [(ServiceError, error_text e)]" "Payload res = []"
    by (rule serve_request_rejected [where k = k and req = q and mt = mt and cd = cd and a = a and e = e])
      (use server(3,4) codec(1) arg hdr k in \<open>simp_all add: q\<close>)
  have wfr: "wf_message res" "within_limit mx (length (body res))"
    using hdr(1) size(2,4) by (simp_all add: wf_message_def length_body res q)
  have meta: "Metadata (received res buf) = Some [(ServiceError, error_text e)]"
    by (simp add: received_def received_meta_def res encodeMetadata_def encodePairs_eq_Nil del: encodePairs.simps)
  obtain w' where w': "handle_message lib (received res buf) w1 = (None, Reset (received res buf), w')" "delivered w' c"
      "calls w' = (calls w1)[c := (calls w1 ! c)\<lparr>call_Error := Some (ServiceErr (error_text e)),
        resMetadata := Metadata (received res buf)\<rparr>]"
    by (rule handle_message_error [OF w1(1) _ _ _ meta])
      (use w1(3) hdr in \<open>simp_all add: received_def res Request_def Response_def Normal_def Error_def\<close>)
  show ?thesis
    using ex [rule_format, of k' res None "Reset (received res buf)" w'] sv wfr client(6,7) w' k(2,6) w1(2) call(1) by simp
qed

definition gzip_libs :: "(string, bytes, bytes) libs" where
  "gzip_libs = store_libs\<lparr>zip_lib := \<lparr>gz_NewWriter = [0x1F, 0x8B], gz_Write = (\<lambda>b w. (None, w @ b)),
     gz_Flush = (\<lambda>w. (None, w)), gz_Close = (\<lambda>w. (None, w)), gz_Bytes = (\<lambda>w. w)\<rparr>\<rparr>"

definition strict_codec :: "string codec_libs" where
  "strict_codec = store_codec\<lparr>mp_Unmarshal :=
     (\<lambda>b r. if b \<noteq> [] \<and> hd b = 0x1F then (r, Some (NewError ''msgpack: invalid code 1f'')) else (ByteToString b, None))\<rparr>"

definition gzip_client :: "string conn" where
  "gzip_client = fresh_call \<lparr>ReqMetaDataKey = None, ResMetaDataKey = None\<rparr> ''Arith'' ''Mul'' (replicate 1025 CHR ''a'') ''''
     (new_conn (sample_option\<lparr>compressType := Gzip\<rparr>) [])"

lemma gzip_client_simps:
  "wf_store gzip_client" "\<not> shutdown gzip_client" "\<not> closing gzip_client" "pool gzip_client = []" "seq gzip_client = 0"
  "opt gzip_client = sample_option\<lparr>compressType := Gzip\<rparr>" "length (calls gzip_client) = 1"
  "servicePath (calls gzip_client ! 0) = ''Arith''" "serviceMethod (calls gzip_client ! 0) = ''Mul''"
  "args (calls gzip_client ! 0) = replicate 1025 CHR ''a''" "metadata (calls gzip_client ! 0) = None"
  by (simp_all add: gzip_client_def fresh_call_def new_conn_def wf_store_def pending_map_def)

theorem compressed_call_fails_witness:
  "\<exists>w' s'. exchange gzip_libs strict_codec sample_reflect 0 rpc_choices NewMessage 0 gzip_client [] sample_service_server =
       Some (None, w', s') \<and> app s' = 0 \<and>
       call_Error (calls w' ! 0) = Some (ServiceErr ''msgpack: invalid code 1f'')"
proof -
  note w = gzip_client_simps
  obtain sv where sv: "map_of (service_map sample_service_server) (servicePath (calls gzip_client ! 0)) = Some sv"
    "map_of (sv_method sv) (serviceMethod (calls gzip_client ! 0)) = Some echo_method"
    using sample_service_lookup(1) w by auto
  have "\<exists>w' s'. exchange gzip_libs strict_codec sample_reflect 0 rpc_choices NewMessage 0 gzip_client [] sample_service_server =
       Some (None, w', s') \<and> app s' = app sample_service_server \<and> delivered w' 0 \<and>
       call_Error (calls w' ! 0) = Some (ServiceErr (error_text (NewError ''msgpack: invalid code 1f''))) \<and>
       reply (calls w' ! 0) = reply (calls gzip_client ! 0)"
    by (rule compressed_call_fails [where cd = MsgpackCodec and data = "StringToByte (replicate 1025 CHR ''a'')"
          and z = "[0x1F, 0x8B] @ StringToByte (replicate 1025 CHR ''a'')" and sv = sv and mt = echo_method,
          OF w(1-3) _ _ _ NewMessage_cleared refl _ _ _ _ _ _ _ _ _ sv])
      (simp_all add: w sample_service_lookup sample_option_def Codecs_def JSON_def ProtoBuffer_def MsgPack_def
        codec_Encode_def codec_Decode_def gzip_libs_def strict_codec_def store_libs_def store_codec_def Zip_def
        message_size_def within_limit_def encodeMetadata_def ServiceError_def)
  then show ?thesis using sample_service_lookup(3) by auto
qed

section \<open>Calls through a breaker\<close>

text \<open>Whichever of the four breakers a client has, a direct call that returns nil was made and succeeded.\<close>

lemmas CallDirect_nil_simple = simple.CallDirect_nil
lemmas CallDirect_nil_circuit = circuit.CallDirect_nil

end
